theory Spec2Isabelle
  imports Main "HOL-Library.Sublist"
begin

section \<open>Bytes, C strings and libc helpers\<close>

text \<open>
  Bytes are modelled as \<^typ>\<open>char\<close>; a C buffer is a \<^typ>\<open>char list\<close>.
  \<open>c_char_val\<close> is the value of a byte read through the C type \<open>char\<close>, which is
  signed on the x86 targets the Makefile builds for (\<open>-msse4.2\<close>).
\<close>

definition CR :: char where "CR = CHR 0x0D"
definition LF :: char where "LF = CHR 0x0A"
definition NUL :: char where "NUL = CHR 0x00"
definition CRLF :: string where "CRLF = [CR, LF]"

definition c_char_val :: "char \<Rightarrow> int" where
  "c_char_val c = (let n = (of_char c :: int) in if n \<ge> 128 then n - 256 else n)"

text \<open>The C string that starts at a pointer: the bytes before the first NUL.\<close>

definition c_str :: "char list \<Rightarrow> string" where
  "c_str mem = takeWhile (\<lambda>c. c \<noteq> NUL) mem"

text \<open>libc \<open>strstr\<close>: offset of the first occurrence of the needle, if any.\<close>

fun strstr :: "string \<Rightarrow> string \<Rightarrow> nat option" where
  "strstr [] needle = (if needle = [] then Some 0 else None)"
| "strstr (h # hay) needle =
     (if prefix needle (h # hay) then Some 0
      else map_option Suc (strstr hay needle))"

text \<open>libc \<open>isalnum\<close> in the "C" locale (the program never calls \<open>setlocale\<close>).\<close>

definition isalnum :: "char \<Rightarrow> bool" where
  "isalnum c = (let n = (of_char c :: nat) in
     (48 \<le> n \<and> n \<le> 57) \<or> (65 \<le> n \<and> n \<le> 90) \<or> (97 \<le> n \<and> n \<le> 122))"

text \<open>\<open>%d\<close> / \<open>%zu\<close> of a non-negative number.\<close>

definition digit_char :: "nat \<Rightarrow> char" where
  "digit_char d = ''0123456789'' ! d"

fun dec :: "nat \<Rightarrow> string" where
  "dec n = (if n < 10 then [digit_char n] else dec (n div 10) @ [digit_char (n mod 10)])"

declare dec.simps [simp del]

text \<open>
  \<open>snprintf(buf, size, ...)\<close> applied to the fully formatted text: at most \<open>size - 1\<close>
  bytes are stored, the return value is the length the text would have had.
\<close>

definition snprintf :: "nat \<Rightarrow> string \<Rightarrow> string \<times> nat" where
  "snprintf sz s = (take (sz - 1) s, length s)"

section \<open>Data model (connection.h, http\_parser.h)\<close>

definition BUFFER_SIZE :: nat where "BUFFER_SIZE = 4096"
definition URL_MAX_LEN :: nat where "URL_MAX_LEN = 256"

datatype conn_state =
  STATE_FREE | STATE_READING | STATE_WRITING | STATE_KEEP_ALIVE | STATE_CLOSING

text \<open>
  The parser is the third-party \<open>http_parser\<close> library; only the fields the
  program reads are kept.
\<close>

datatype http_method = HTTP_DELETE | HTTP_GET | HTTP_HEAD | HTTP_POST | HTTP_PUT

datatype http_errno =
  HPE_OK | HPE_CB_url | HPE_CB_headers_complete | HPE_INVALID_METHOD | HPE_PAUSED

record http_parser =
  http_errno :: http_errno
  http_major :: nat
  http_minor :: nat
  upgrade :: bool
  http_method :: http_method

record timespec =
  tv_sec :: int
  tv_nsec :: int

record iovec =
  iov_base :: string
  iov_len :: nat

record connection =
  fd :: int
  state :: conn_state
  parser :: http_parser
  url :: string
  keep_alive :: bool
  read_buf :: "char list"
  bytes_read :: nat
  response_iov0 :: iovec
  response_iov1 :: iovec
  response_headers :: string
  bytes_sent :: nat
  timer_node :: "nat option"
  last_active :: timespec

section \<open>Request handler (http\_handler.c)\<close>

definition is_valid_url_char :: "char \<Rightarrow> bool" where
  "is_valid_url_char c =
     (isalnum c \<or> c = CHR ''/'' \<or> c = CHR ''-'' \<or> c = CHR ''_'' \<or> c = CHR ''.''
      \<or> c = CHR ''?'' \<or> c = CHR ''='' \<or> c = CHR ''&'')"

text \<open>
  \<open>validate_url(url, len)\<close>. The pointer \<open>url\<close> points into the read buffer, so the
  argument is given as the \<open>len\<close> bytes of the target (\<open>u\<close>) and the bytes that follow
  them in memory (\<open>rest\<close>). The loop over \<open>url[i]\<close> reads \<open>u\<close> only; the two \<open>strstr\<close>
  calls take no length and read the C string that starts at \<open>url\<close>.
\<close>

definition validate_url :: "string \<Rightarrow> char list \<Rightarrow> bool" where
  "validate_url u rest =
     (if length u = 0 \<or> length u \<ge> URL_MAX_LEN then False
      else if hd u \<noteq> CHR ''/'' then False
      else if \<not> list_all is_valid_url_char u then False
      else if strstr (c_str (u @ rest)) ''..'' \<noteq> None then False
      else if strstr (c_str (u @ rest)) ''//'' \<noteq> None then False
      else True)"

definition not_found_json :: string where
  "not_found_json = ''{\"error\":\"Not Found\"}''"
definition bad_request_json :: string where
  "bad_request_json = ''{\"error\":\"Bad Request\"}''"
definition method_not_allowed_json :: string where
  "method_not_allowed_json = ''{\"error\":\"Method Not Allowed\"}''"
definition internal_error_json :: string where
  "internal_error_json = ''{\"error\":\"Internal Server Error\"}''"

text \<open>\<open>on_url_callback\<close>: the result is the callback's return value and the connection.\<close>

definition on_url_callback :: "connection \<Rightarrow> string \<Rightarrow> char list \<Rightarrow> int \<times> connection" where
  "on_url_callback conn u rest =
     (if length u \<ge> URL_MAX_LEN then (-1, conn)
      else if \<not> validate_url u rest then (-1, conn)
      else let url_len = (if length u < URL_MAX_LEN - 1 then length u else URL_MAX_LEN - 1)
           in (0, conn\<lparr>url := take url_len u\<rparr>))"

text \<open>
  \<open>on_headers_complete_callback\<close>, given the parser's \<open>content_length\<close>, \<open>nread\<close> and
  the library's \<open>http_should_keep_alive\<close> verdict.
\<close>

definition on_headers_complete_callback ::
  "connection \<Rightarrow> nat \<Rightarrow> nat \<Rightarrow> bool \<Rightarrow> int \<times> connection" where
  "on_headers_complete_callback conn content_length nread should_keep_alive =
     (if content_length > 0 then (-1, conn)
      else if nread > 8192 then (-1, conn)
      else (1, conn\<lparr>keep_alive := should_keep_alive\<rparr>))"

text \<open>The route table after \<open>routes_init\<close>.\<close>

definition routes_lookup :: "string \<Rightarrow> string option" where
  "routes_lookup p =
     (if p = ''/bonuses'' then Some ''{\"bonuses\":[10,20,30]}''
      else if p = ''/settings'' then Some ''{\"settings\":{\"theme\":\"dark\"}}''
      else if p = ''/games'' then Some ''{\"games\":[\"chess\",\"poker\"]}''
      else if p = ''/health'' then Some ''{\"status\":\"OK\"}''
      else None)"

definition format_headers :: "nat \<Rightarrow> string \<Rightarrow> nat \<Rightarrow> string \<Rightarrow> string" where
  "format_headers status_code status_text body_len keep_alive_hdr =
     ''HTTP/1.1 '' @ dec status_code @ '' '' @ status_text @ CRLF @
     ''Content-Type: application/json'' @ CRLF @
     ''Content-Length: '' @ dec body_len @ CRLF @
     ''Server: BFF/1.0'' @ CRLF @
     ''X-Content-Type-Options: nosniff'' @ CRLF @
     ''X-Frame-Options: DENY'' @ CRLF @
     keep_alive_hdr @
     CRLF"

definition format_headers_500 :: "nat \<Rightarrow> string" where
  "format_headers_500 body_len =
     ''HTTP/1.1 500 Internal Server Error'' @ CRLF @
     ''Content-Type: application/json'' @ CRLF @
     ''Content-Length: '' @ dec body_len @ CRLF @
     ''Connection: close'' @ CRLF @
     CRLF"

text \<open>
  The first half of \<open>handle_request_and_prepare_response\<close>, up to the label
  \<open>prepare_response\<close>: \<open>route_key\<close> is the local copy of the target (\<open>strncpy\<close> of
  the C string, at most 255 bytes) cut at the first \<open>?\<close>; \<open>choose_response\<close> yields the
  status code, status text, body and the keep-alive flag.
\<close>

definition route_key :: "string \<Rightarrow> string" where
  "route_key u =
     (let url_copy = take (URL_MAX_LEN - 1) (c_str u)
      in takeWhile (\<lambda>c. c \<noteq> CHR ''?'') url_copy)"

definition choose_response :: "connection \<Rightarrow> nat \<times> string \<times> string \<times> bool" where
  "choose_response conn =
     (let url_copy = route_key (url conn)
      in if length url_copy = 0 \<or> hd url_copy \<noteq> CHR ''/''
         then (400, ''Bad Request'', bad_request_json, False)
         else if http_method (parser conn) \<noteq> HTTP_GET
         then (405, ''Method Not Allowed'', method_not_allowed_json, False)
         else (case routes_lookup url_copy of
                 None \<Rightarrow> (404, ''Not Found'', not_found_json, False)
               | Some body \<Rightarrow> (200, ''OK'', body, keep_alive conn)))"

definition handle_request_and_prepare_response :: "connection \<Rightarrow> connection" where
  "handle_request_and_prepare_response conn =
     (case choose_response conn of (status_code, status_text, response_body, ka) \<Rightarrow>
        let keep_alive_hdr =
              (if ka then fst (snprintf 64 (''Connection: keep-alive'' @ CRLF @
                                           ''Keep-Alive: timeout='' @ dec 10 @ CRLF))
               else ''Connection: close'' @ CRLF);
            response_body_len = length response_body;
            (hdrs, header_len) =
               snprintf 512 (format_headers status_code status_text response_body_len keep_alive_hdr);
            overflow = (header_len \<ge> 512);
            response_body = (if overflow then internal_error_json else response_body);
            ka = (if overflow then False else ka);
            (hdrs, header_len) =
               (if overflow then snprintf 512 (format_headers_500 (length response_body))
                else (hdrs, header_len))
        in conn\<lparr>keep_alive := ka,
                response_headers := hdrs,
                response_iov0 := \<lparr>iov_base = hdrs, iov_len = header_len\<rparr>,
                response_iov1 := \<lparr>iov_base = response_body, iov_len = length response_body\<rparr>,
                bytes_sent := 0,
                state := STATE_WRITING\<rparr>)"

section \<open>Timer heap (timer.h, timer.c)\<close>

text \<open>
  Pointers become indices: a connection is its index in the connection array, a timer
  node its index in the node array of the pool; \<open>NULL\<close> is \<open>None\<close>. The \<open>next\<close> link
  of the free nodes is the list \<open>free_head\<close>.
\<close>

record timer_node =
  expiry_time :: timespec
  node_conn :: "nat option"
  heap_index :: int

datatype ev_flag = EPOLLIN | EPOLLOUT | EPOLLET | EPOLLONESHOT | EPOLLRDHUP | EPOLLERR | EPOLLHUP

record epoll_event =
  events :: "ev_flag list"
  data_ptr :: nat

text \<open>
  The state of one worker thread: the connection array and the stack of free indices
  (connection.c), the timer heap with its node pool, the monotonic clock, the epoll
  interest list and the set of open descriptors. \<open>heap\<close> holds the slots
  \<open>th->heap[0 .. th->size - 1]\<close>, so \<open>th->size\<close> is its length; no slot beyond
  \<open>th->size\<close> is read before it is written. The statistics counters
  (\<open>used_count\<close>, \<open>pool_used_count\<close>, \<open>pool_peak_usage\<close>) are left out.
\<close>

record world =
  conns :: "nat \<Rightarrow> connection"
  free_connections_stack :: "nat list"
  heap :: "nat list"
  th_capacity :: nat
  nodes :: "nat \<Rightarrow> timer_node"
  free_head :: "nat list"
  clock :: timespec
  epoll_reg :: "int \<Rightarrow> epoll_event option"
  open_fds :: "int set"

definition upd_conn :: "world \<Rightarrow> nat \<Rightarrow> (connection \<Rightarrow> connection) \<Rightarrow> world" where
  "upd_conn w c f = w\<lparr>conns := (conns w)(c := f (conns w c))\<rparr>"

definition upd_node :: "world \<Rightarrow> nat \<Rightarrow> (timer_node \<Rightarrow> timer_node) \<Rightarrow> world" where
  "upd_node w n f = w\<lparr>nodes := (nodes w)(n := f (nodes w n))\<rparr>"

text \<open>The comparison of two deadlines that the heap code writes out at every use.\<close>

definition expiry_less :: "timespec \<Rightarrow> timespec \<Rightarrow> bool" where
  "expiry_less a b = (tv_sec a < tv_sec b \<or> (tv_sec a = tv_sec b \<and> tv_nsec a < tv_nsec b))"

definition node_less :: "world \<Rightarrow> nat \<Rightarrow> nat \<Rightarrow> bool" where
  "node_less w i j =
     expiry_less (expiry_time (nodes w (heap w ! i))) (expiry_time (nodes w (heap w ! j)))"

definition timer_node_pool_get :: "world \<Rightarrow> nat option \<times> world" where
  "timer_node_pool_get w =
     (case free_head w of
        [] \<Rightarrow> (None, w)
      | node # rest \<Rightarrow>
          (Some node,
           w\<lparr>free_head := rest,
             nodes := (nodes w)(node := \<lparr>expiry_time = \<lparr>tv_sec = 0, tv_nsec = 0\<rparr>,
                                        node_conn = None, heap_index = -1\<rparr>)\<rparr>))"

definition timer_node_pool_release :: "world \<Rightarrow> nat \<Rightarrow> world" where
  "timer_node_pool_release w node = w\<lparr>free_head := node # free_head w\<rparr>"

definition swap_nodes :: "world \<Rightarrow> nat \<Rightarrow> nat \<Rightarrow> world" where
  "swap_nodes w a b =
     (let temp = heap w ! a;
          w1 = w\<lparr>heap := (heap w)[a := heap w ! b]\<rparr>;
          w2 = w1\<lparr>heap := (heap w1)[b := temp]\<rparr>;
          w3 = upd_node w2 (heap w2 ! a) (\<lambda>n. n\<lparr>heap_index := int a\<rparr>)
      in upd_node w3 (heap w3 ! b) (\<lambda>n. n\<lparr>heap_index := int b\<rparr>))"

lemma length_heap_swap_nodes [simp]: "length (heap (swap_nodes w a b)) = length (heap w)"
  by (simp add: swap_nodes_def upd_node_def Let_def)

function sift_up :: "world \<Rightarrow> nat \<Rightarrow> world" where
  "sift_up w index =
     (if index = 0 then w
      else let parent_index = (index - 1) div 2
           in if node_less w index parent_index
              then sift_up (swap_nodes w index parent_index) parent_index
              else w)"
  by pat_completeness auto
termination
  by (relation "measure snd") auto

function sift_down :: "world \<Rightarrow> nat \<Rightarrow> world" where
  "sift_down w index =
     (let left_child = 2 * index + 1;
          right_child = 2 * index + 2;
          smallest = index;
          smallest = (if left_child < length (heap w) \<and> node_less w left_child smallest
                      then left_child else smallest);
          smallest = (if right_child < length (heap w) \<and> node_less w right_child smallest
                      then right_child else smallest)
      in if smallest \<noteq> index then sift_down (swap_nodes w index smallest) smallest else w)"
  by pat_completeness auto
termination
  by (relation "measure (\<lambda>(w, index). length (heap w) - index)") (auto simp: Let_def split: if_splits)

declare sift_up.simps [simp del] sift_down.simps [simp del]

text \<open>
  \<open>timer_heap_add\<close>. \<open>timeout_ms\<close> is only ever one of the two positive timeout
  constants, for which C's \<open>/\<close> and \<open>%\<close> agree with \<open>div\<close> and \<open>mod\<close>.
\<close>

definition deadline :: "timespec \<Rightarrow> int \<Rightarrow> timespec" where
  "deadline now timeout_ms =
     (let sec = tv_sec now + timeout_ms div 1000;
          nsec = tv_nsec now + (timeout_ms mod 1000) * 1000000
      in if nsec \<ge> 1000000000 then \<lparr>tv_sec = sec + 1, tv_nsec = nsec - 1000000000\<rparr>
         else \<lparr>tv_sec = sec, tv_nsec = nsec\<rparr>)"

definition timer_heap_add :: "world \<Rightarrow> nat \<Rightarrow> int \<Rightarrow> int \<times> world" where
  "timer_heap_add w conn timeout_ms =
     (if length (heap w) \<ge> th_capacity w then (-1, w)
      else case timer_node_pool_get w of
        (None, _) \<Rightarrow> (-1, w)
      | (Some node, w1) \<Rightarrow>
          let w2 = upd_node w1 node (\<lambda>n. n\<lparr>expiry_time := deadline (clock w1) timeout_ms\<rparr>);
              w3 = upd_node w2 node (\<lambda>n. n\<lparr>node_conn := Some conn\<rparr>);
              w4 = upd_node w3 node (\<lambda>n. n\<lparr>heap_index := int (length (heap w3))\<rparr>);
              w5 = upd_conn w4 conn (\<lambda>c. c\<lparr>timer_node := Some node\<rparr>);
              w6 = w5\<lparr>heap := heap w5 @ [node]\<rparr>
          in (0, sift_up w6 (length (heap w5))))"

text \<open>
  The middle of \<open>timer_heap_remove\<close>: slot \<open>index\<close> leaves the heap; unless it was the
  last slot, the last node moves into it and the heap order is restored.
\<close>

definition take_out :: "world \<Rightarrow> nat \<Rightarrow> world" where
  "take_out w index =
     (let sz = length (heap w) - 1
      in if index \<noteq> sz
         then let wa = w\<lparr>heap := (butlast (heap w))[index := heap w ! sz]\<rparr>;
                  wb = upd_node wa (heap wa ! index) (\<lambda>n. n\<lparr>heap_index := int index\<rparr>)
              in if index > 0 \<and> node_less wb index ((index - 1) div 2)
                 then sift_up wb index else sift_down wb index
         else w\<lparr>heap := butlast (heap w)\<rparr>)"

definition timer_heap_remove :: "world \<Rightarrow> nat \<Rightarrow> world" where
  "timer_heap_remove w conn =
     (case timer_node (conns w conn) of
        None \<Rightarrow> w
      | Some node_to_remove \<Rightarrow>
          let index = heap_index (nodes w node_to_remove)
          in if index < 0 \<or> index \<ge> int (length (heap w)) \<or> heap w ! nat index \<noteq> node_to_remove
             then w
             else
               let w1 = take_out w (nat index);
                   w2 = timer_node_pool_release w1 node_to_remove
               in upd_conn w2 conn (\<lambda>c. c\<lparr>timer_node := None\<rparr>))"

section \<open>Connection pool (connection.c)\<close>

definition MAX_CONNECTIONS :: nat where "MAX_CONNECTIONS = 16384"

text \<open>
  \<open>http_parser_init\<close> of the library clears the parser and sets \<open>http_errno\<close> to
  \<open>HPE_OK\<close>; the cleared method is the first enumerator.
\<close>

definition http_parser_init :: http_parser where
  "http_parser_init = \<lparr>http_errno = HPE_OK, http_major = 0, http_minor = 0, upgrade = False,
                        http_method = HTTP_DELETE\<rparr>"

text \<open>
  \<open>read_buf\<close> holds the \<open>bytes_read\<close> bytes received so far, so it is emptied where the
  code resets \<open>bytes_read\<close>: the bytes that an earlier request left behind that mark stay
  in the C array, and are not modelled (the parser and the scans of the read path are
  given \<open>bytes_read\<close> as their length). The mutex is not modelled: a worker is one thread.
\<close>

definition connection_get :: "world \<Rightarrow> nat option \<times> world" where
  "connection_get w =
     (case free_connections_stack w of
        [] \<Rightarrow> (None, w)
      | conn_index # rest \<Rightarrow>
          (Some conn_index,
           upd_conn (w\<lparr>free_connections_stack := rest\<rparr>) conn_index
             (\<lambda>c. c\<lparr>fd := -1, state := STATE_READING, keep_alive := False,
                     bytes_read := 0, read_buf := [], bytes_sent := 0, url := [],
                     timer_node := None, parser := http_parser_init\<rparr>)))"

definition connection_release :: "world \<Rightarrow> nat \<Rightarrow> world" where
  "connection_release w conn =
     (if state (conns w conn) = STATE_FREE then w
      else let w1 = upd_conn w conn (\<lambda>c. c\<lparr>state := STATE_FREE, fd := -1, timer_node := None\<rparr>)
           in if conn < MAX_CONNECTIONS \<and> length (free_connections_stack w1) < MAX_CONNECTIONS
              then w1\<lparr>free_connections_stack := conn # free_connections_stack w1\<rparr>
              else w1)"

section \<open>System calls\<close>

text \<open>
  The kernel is the environment. What a socket delivers is a script of results, one per
  \<open>recv\<close>, \<open>writev\<close> or \<open>accept4\<close> call; a script that has run out answers \<open>EAGAIN\<close>.
  \<open>recv\<close> never returns more than the space it was given: what does not fit stays
  queued. \<open>writev\<close> never reports more than the lengths it was given.
\<close>

datatype errno = E_NONE | EAGAIN | ECONNRESET

datatype recv_result = Recv_data "char list" | Recv_eof | Recv_eagain | Recv_error

fun recv :: "recv_result list \<Rightarrow> nat \<Rightarrow> int \<times> errno \<times> char list \<times> recv_result list" where
  "recv [] n = (-1, EAGAIN, [], [])"
| "recv (Recv_data bs # rs) n =
     (int (length (take n bs)), E_NONE, take n bs,
      if drop n bs = [] then rs else Recv_data (drop n bs) # rs)"
| "recv (Recv_eof # rs) n = (0, E_NONE, [], rs)"
| "recv (Recv_eagain # rs) n = (-1, EAGAIN, [], rs)"
| "recv (Recv_error # rs) n = (-1, ECONNRESET, [], rs)"

datatype writev_result = Wv_bytes nat | Wv_eagain | Wv_error

fun writev :: "writev_result list \<Rightarrow> nat list \<Rightarrow> int \<times> errno \<times> writev_result list" where
  "writev [] lens = (-1, EAGAIN, [])"
| "writev (Wv_bytes k # ws) lens = (int (min k (sum_list lens)), E_NONE, ws)"
| "writev (Wv_eagain # ws) lens = (-1, EAGAIN, ws)"
| "writev (Wv_error # ws) lens = (-1, ECONNRESET, ws)"

text \<open>\<open>accept4\<close>: a new descriptor, with the outcome the later \<open>EPOLL_CTL_ADD\<close> will have.\<close>

datatype accept_result = Accept_fd int bool | Accept_eagain | Accept_error

definition close_fd :: "world \<Rightarrow> int \<Rightarrow> world" where
  "close_fd w d = w\<lparr>open_fds := open_fds w - {d}, epoll_reg := (epoll_reg w)(d := None)\<rparr>"

definition epoll_ctl_add :: "world \<Rightarrow> int \<Rightarrow> epoll_event \<Rightarrow> world" where
  "epoll_ctl_add w d ev = w\<lparr>epoll_reg := (epoll_reg w)(d \<mapsto> ev)\<rparr>"

definition epoll_ctl_mod :: "world \<Rightarrow> int \<Rightarrow> epoll_event \<Rightarrow> world" where
  "epoll_ctl_mod w d ev =
     (if epoll_reg w d = None then w else w\<lparr>epoll_reg := (epoll_reg w)(d \<mapsto> ev)\<rparr>)"

definition epoll_ctl_del :: "world \<Rightarrow> int \<Rightarrow> world" where
  "epoll_ctl_del w d = w\<lparr>epoll_reg := (epoll_reg w)(d := None)\<rparr>"

section \<open>The parser library as a parameter\<close>

text \<open>
  \<open>http_parser_execute\<close> belongs to the third-party http-parser library. A call is
  described by a script: the callbacks it makes, in order, and the values it leaves
  behind when no callback objects. \<open>On_url off len\<close> is \<open>on_url(at = data + off, len)\<close>;
  the bytes after the data handed to the parser are not modelled, so a scan that leaves
  the target stops at the end of that data at the latest. By the library's contract a
  callback that returns an error makes the parser stop with the matching \<open>HPE_CB_\<close>
  code; \<open>on_headers_complete\<close> may return 1 to skip the body. The \<open>content_length\<close> that
  \<open>on_headers_complete\<close> sees is the declared one, and \<open>ULLONG_MAX\<close> for a message that
  declares none. The table
  \<open>parser_settings\<close> that names the callbacks is not among the sources: the two callbacks
  that http\_handler.c defines, \<open>on_url_callback\<close> and \<open>on_headers_complete_callback\<close>,
  are taken to be the ones installed, and no others.
\<close>

datatype parser_event = On_url nat nat | On_headers_complete nat nat bool

definition ULLONG_MAX :: nat where "ULLONG_MAX = 18446744073709551615"

record parse_script =
  ps_events :: "parser_event list"
  ps_parsed :: nat
  ps_errno :: http_errno
  ps_major :: nat
  ps_minor :: nat
  ps_upgrade :: bool
  ps_method :: http_method

fun run_callbacks :: "parser_event list \<Rightarrow> char list \<Rightarrow> connection \<Rightarrow> http_errno \<times> connection" where
  "run_callbacks [] data conn = (HPE_OK, conn)"
| "run_callbacks (On_url off len # es) data conn =
     (case on_url_callback conn (take len (drop off data)) (drop (off + len) data) of
        (r, conn') \<Rightarrow> if r \<noteq> 0 then (HPE_CB_url, conn') else run_callbacks es data conn')"
| "run_callbacks (On_headers_complete content_length nread ka # es) data conn =
     (case on_headers_complete_callback conn content_length nread ka of
        (r, conn') \<Rightarrow> if r \<noteq> 0 \<and> r \<noteq> 1 \<and> r \<noteq> 2 then (HPE_CB_headers_complete, conn')
                     else run_callbacks es data conn')"

definition http_parser_execute :: "parse_script \<Rightarrow> connection \<Rightarrow> char list \<Rightarrow> nat \<times> connection" where
  "http_parser_execute ps conn data =
     (case run_callbacks (ps_events ps) data conn of
        (e, conn') \<Rightarrow>
          (ps_parsed ps,
           conn'\<lparr>parser := \<lparr>http_errno = (if e = HPE_OK then ps_errno ps else e),
                             http_major = ps_major ps, http_minor = ps_minor ps,
                             upgrade = ps_upgrade ps, http_method = ps_method ps\<rparr>\<rparr>))"

section \<open>Worker (worker.c)\<close>

definition REQUEST_TIMEOUT_MS :: int where "REQUEST_TIMEOUT_MS = 5000"
definition KEEP_ALIVE_TIMEOUT_MS :: int where "KEEP_ALIVE_TIMEOUT_MS = 10000"
definition MAX_ACCEPTS_PER_LOOP :: nat where "MAX_ACCEPTS_PER_LOOP = 64"
definition MAX_REQUEST_SIZE :: nat where "MAX_REQUEST_SIZE = 8192"

definition close_connection_from_worker :: "world \<Rightarrow> nat \<Rightarrow> world" where
  "close_connection_from_worker w conn =
     (if fd (conns w conn) = -1 then w
      else let d = fd (conns w conn);
               w1 = epoll_ctl_del w d;
               w2 = close_fd w1 d;
               w3 = timer_heap_remove w2 conn
           in connection_release w3 conn)"

text \<open>
  One pass of the loop of \<open>handle_new_connection\<close> per \<open>accept4\<close> result. The
  \<open>setsockopt\<close> calls do not touch the state of the worker.
\<close>

fun handle_new_connection_loop :: "nat \<Rightarrow> accept_result list \<Rightarrow> world \<Rightarrow> world" where
  "handle_new_connection_loop accepts_count [] w = w"
| "handle_new_connection_loop accepts_count (Accept_eagain # as) w = w"
| "handle_new_connection_loop accepts_count (Accept_error # as) w = w"
| "handle_new_connection_loop accepts_count (Accept_fd client_fd epoll_ok # as) w =
     (if \<not> accepts_count < MAX_ACCEPTS_PER_LOOP then w
      else
        let w0 = w\<lparr>open_fds := insert client_fd (open_fds w)\<rparr>;
            accepts_count = accepts_count + 1
        in case connection_get w0 of
             (None, _) \<Rightarrow> handle_new_connection_loop accepts_count as (close_fd w0 client_fd)
           | (Some conn, w1) \<Rightarrow>
               let w2 = upd_conn w1 conn
                          (\<lambda>c. c\<lparr>fd := client_fd, state := STATE_READING, last_active := clock w1\<rparr>)
               in if \<not> epoll_ok
                  then handle_new_connection_loop accepts_count as
                         (close_fd (connection_release w2 conn) client_fd)
                  else
                    let w3 = epoll_ctl_add w2 client_fd
                               \<lparr>events = [EPOLLIN, EPOLLET, EPOLLONESHOT], data_ptr = conn\<rparr>
                    in handle_new_connection_loop accepts_count as
                         (snd (timer_heap_add w3 conn REQUEST_TIMEOUT_MS)))"

definition handle_new_connection :: "accept_result list \<Rightarrow> world \<Rightarrow> world" where
  "handle_new_connection as w = handle_new_connection_loop 0 as w"

text \<open>The scan for repeated bytes inside the read loop of \<open>do_read\<close>.\<close>

fun repeated_scan :: "char \<Rightarrow> char list \<Rightarrow> nat \<Rightarrow> bool" where
  "repeated_scan prev [] repeated_count = False"
| "repeated_scan prev (x # xs) repeated_count =
     (if x = prev
      then (if repeated_count + 1 > 128 then True else repeated_scan x xs (repeated_count + 1))
      else repeated_scan x xs 0)"

definition too_many_repeats :: "char list \<Rightarrow> bool" where
  "too_many_repeats buf =
     (case take 256 buf of [] \<Rightarrow> False | b # bs \<Rightarrow> repeated_scan b bs 0)"

datatype loop_exit = Loop_close | Loop_done int errno

definition MAX_READ_ATTEMPTS :: nat where "MAX_READ_ATTEMPTS = 16"

text \<open>
  The \<open>do ... while\<close> loop of \<open>do_read\<close> on the connection record. \<open>Loop_close\<close> is an
  exit through \<open>close_connection_from_worker\<close>; \<open>Loop_done nread errno\<close> leaves the
  loop with the last result of \<open>recv\<close>.
\<close>

function read_loop ::
  "nat \<Rightarrow> recv_result list \<Rightarrow> connection \<Rightarrow> loop_exit \<times> connection \<times> recv_result list" where
  "read_loop read_attempts rs conn =
     (let space_left = BUFFER_SIZE - bytes_read conn
      in if space_left = 0 then (Loop_close, conn, rs)
         else case recv rs space_left of (nread, err, data, rs') \<Rightarrow>
           let conn1 = (if nread > 0
                        then conn\<lparr>read_buf := read_buf conn @ data,
                                  bytes_read := bytes_read conn + nat nread\<rparr>
                        else conn)
           in if nread > 0 \<and> bytes_read conn1 > MAX_REQUEST_SIZE then (Loop_close, conn1, rs')
              else if nread > 0 \<and> bytes_read conn1 > 1024 \<and> too_many_repeats (read_buf conn1)
              then (Loop_close, conn1, rs')
              else if read_attempts + 1 > MAX_READ_ATTEMPTS then (Loop_done nread err, conn1, rs')
              else if nread > 0 \<and> bytes_read conn1 < BUFFER_SIZE
              then read_loop (read_attempts + 1) rs' conn1
              else (Loop_done nread err, conn1, rs'))"
  by pat_completeness auto
termination
  by (relation "measure (\<lambda>(a, rs, conn). MAX_READ_ATTEMPTS + 1 - a)") auto

declare read_loop.simps [simp del]

datatype write_exit = Write_again | Write_error | Write_done nat

definition MAX_WRITE_ATTEMPTS :: nat where "MAX_WRITE_ATTEMPTS = 64"

text \<open>
  The scatter list that one pass of the loop of \<open>do_write\<close> hands to \<open>writev\<close>, as the
  list of its lengths (only the lengths matter to the program): \<open>adjusted\<close> is
  \<open>adjusted_iov\<close>, of which \<open>writev\<close> gets the first one or two entries.
\<close>

definition write_iov :: "connection \<Rightarrow> nat list" where
  "write_iov conn =
     (let len0 = iov_len (response_iov0 conn);
          len1 = iov_len (response_iov1 conn);
          offset = bytes_sent conn;
          adjusted = (if offset < len0 then [len0 - offset, len1]
                      else [len1 - (offset - len0), 0]);
          iovcnt = (if adjusted ! 1 > 0 then 2 else 1)
      in take iovcnt adjusted)"

text \<open>The \<open>while\<close> loop of \<open>do_write\<close>.\<close>

function write_loop ::
  "nat \<Rightarrow> writev_result list \<Rightarrow> connection \<Rightarrow> write_exit \<times> connection \<times> writev_result list" where
  "write_loop write_attempts ws conn =
     (let total_len = iov_len (response_iov0 conn) + iov_len (response_iov1 conn)
      in if bytes_sent conn < total_len \<and> write_attempts < MAX_WRITE_ATTEMPTS
         then
           case writev ws (write_iov conn) of (nwritten, err, ws') \<Rightarrow>
             if nwritten < 0
             then (if err = EAGAIN then (Write_again, conn, ws') else (Write_error, conn, ws'))
             else write_loop (write_attempts + 1) ws'
                    (conn\<lparr>bytes_sent := bytes_sent conn + nat nwritten\<rparr>)
         else (Write_done write_attempts, conn, ws))"
  by pat_completeness auto
termination
  by (relation "measure (\<lambda>(a, ws, conn). MAX_WRITE_ATTEMPTS - a)") auto

declare write_loop.simps [simp del]

definition set_conn :: "world \<Rightarrow> nat \<Rightarrow> connection \<Rightarrow> world" where
  "set_conn w c v = w\<lparr>conns := (conns w)(c := v)\<rparr>"

definition do_write :: "writev_result list \<Rightarrow> world \<Rightarrow> nat \<Rightarrow> world" where
  "do_write ws w conn =
     (let total_len = iov_len (response_iov0 (conns w conn)) + iov_len (response_iov1 (conns w conn))
      in if total_len > 65536 then close_connection_from_worker w conn
         else case write_loop 0 ws (conns w conn) of
           (Write_again, c', _) \<Rightarrow>
             epoll_ctl_mod (set_conn w conn c') (fd c')
               \<lparr>events = [EPOLLOUT, EPOLLET, EPOLLONESHOT], data_ptr = conn\<rparr>
         | (Write_error, c', _) \<Rightarrow> close_connection_from_worker (set_conn w conn c') conn
         | (Write_done write_attempts, c', _) \<Rightarrow>
             if write_attempts \<ge> MAX_WRITE_ATTEMPTS
             then close_connection_from_worker (set_conn w conn c') conn
             else if keep_alive c'
             then
               let w1 = set_conn w conn
                          (c'\<lparr>state := STATE_KEEP_ALIVE, parser := http_parser_init,
                              bytes_read := 0, read_buf := [], bytes_sent := 0, url := []\<rparr>);
                   w2 = epoll_ctl_mod w1 (fd c')
                          \<lparr>events = [EPOLLIN, EPOLLET, EPOLLONESHOT], data_ptr = conn\<rparr>
               in snd (timer_heap_add w2 conn KEEP_ALIVE_TIMEOUT_MS)
             else close_connection_from_worker (set_conn w conn c') conn)"

text \<open>
  The last branch of \<open>do_read\<close>, taken when the connection has left \<open>STATE_READING\<close>:
  cancel the timer, prepare the response, write.
\<close>

definition do_read_dispatch :: "writev_result list \<Rightarrow> world \<Rightarrow> nat \<Rightarrow> world" where
  "do_read_dispatch ws w conn =
     (let w1 = timer_heap_remove w conn;
          w2 = upd_conn w1 conn handle_request_and_prepare_response
      in do_write ws w2 conn)"

text \<open>
  \<open>do_read\<close> after its read loop: run the parser over the whole buffer and act on what
  it reports.
\<close>

definition do_read_parse :: "parse_script \<Rightarrow> writev_result list \<Rightarrow> world \<Rightarrow> nat \<Rightarrow> world" where
  "do_read_parse ps ws w conn =
     (case http_parser_execute ps (conns w conn) (read_buf (conns w conn)) of (parsed, c'') \<Rightarrow>
        let w4 = set_conn w conn c'';
            e = http_errno (parser c'')
        in if e \<noteq> HPE_OK \<and> e \<noteq> HPE_PAUSED then close_connection_from_worker w4 conn
           else if parsed \<noteq> bytes_read c'' \<and> e \<noteq> HPE_PAUSED
           then close_connection_from_worker w4 conn
           else if http_major (parser c'') \<noteq> 1
                   \<or> (http_minor (parser c'') \<noteq> 0 \<and> http_minor (parser c'') \<noteq> 1)
           then close_connection_from_worker w4 conn
           else if upgrade (parser c'') then close_connection_from_worker w4 conn
           else if state c'' = STATE_READING
           then (if bytes_read c'' \<ge> MAX_REQUEST_SIZE
                 then close_connection_from_worker w4 conn
                 else epoll_ctl_mod w4 (fd c'')
                        \<lparr>events = [EPOLLIN, EPOLLET, EPOLLONESHOT], data_ptr = conn\<rparr>)
           else do_read_dispatch ws w4 conn)"

text \<open>The first two statements of \<open>do_read\<close> and of \<open>do_read_optimized\<close>: re-arm the timer.\<close>

definition rearm_request_timer :: "world \<Rightarrow> nat \<Rightarrow> world" where
  "rearm_request_timer w conn =
     (let w1 = upd_conn w conn (\<lambda>c. c\<lparr>state := STATE_READING\<rparr>);
          w2 = timer_heap_remove w1 conn
      in snd (timer_heap_add w2 conn REQUEST_TIMEOUT_MS))"

definition do_read ::
  "recv_result list \<Rightarrow> parse_script \<Rightarrow> writev_result list \<Rightarrow> world \<Rightarrow> nat \<Rightarrow> world" where
  "do_read rs ps ws w conn =
     (let w3 = rearm_request_timer w conn
      in case read_loop 0 rs (conns w3 conn) of
           (Loop_close, c', _) \<Rightarrow> close_connection_from_worker (set_conn w3 conn c') conn
         | (Loop_done nread err, c', _) \<Rightarrow>
             if nread = 0 \<or> (nread < 0 \<and> err \<noteq> EAGAIN)
             then close_connection_from_worker (set_conn w3 conn c') conn
             else do_read_parse ps ws (set_conn w3 conn c') conn)"

text \<open>
  \<open>handle_connection_event\<close>: what the loop of the worker does with one event of a
  connection. \<open>ws\<close> scripts the \<open>writev\<close> calls under \<open>do_read\<close>, \<open>ws2\<close> those of the
  \<open>do_write\<close> that may follow in the same event.
\<close>

definition handle_connection_event ::
  "ev_flag list \<Rightarrow> recv_result list \<Rightarrow> parse_script \<Rightarrow> writev_result list
     \<Rightarrow> writev_result list \<Rightarrow> world \<Rightarrow> nat \<Rightarrow> world" where
  "handle_connection_event evs rs ps ws ws2 w conn =
     (if state (conns w conn) = STATE_CLOSING \<or> state (conns w conn) = STATE_FREE then w
      else
        let w1 = upd_conn w conn (\<lambda>c. c\<lparr>last_active := clock w\<rparr>)
        in if EPOLLERR \<in> set evs \<or> EPOLLHUP \<in> set evs
           then close_connection_from_worker w1 conn
           else
             let w2 = (if (state (conns w1 conn) = STATE_READING
                            \<or> state (conns w1 conn) = STATE_KEEP_ALIVE) \<and> EPOLLIN \<in> set evs
                       then do_read rs ps ws w1 conn else w1)
             in if state (conns w2 conn) = STATE_WRITING \<and> EPOLLOUT \<in> set evs
                then do_write ws2 w2 conn else w2)"

text \<open>
  \<open>timer_heap_process_expired\<close>. \<open>expire_connection\<close> is the body of one pass of the
  loop after the test of the deadline; the loop itself may run forever, in which case
  the function has no result (\<open>None\<close>). A heap node without a connection would be a
  null dereference, which has no result either.
\<close>

definition expired :: "timespec \<Rightarrow> timespec \<Rightarrow> bool" where
  "expired now e = (\<not> (tv_sec e > tv_sec now \<or> (tv_sec e = tv_sec now \<and> tv_nsec e > tv_nsec now)))"

definition expire_connection :: "world \<Rightarrow> nat \<Rightarrow> world" where
  "expire_connection w conn =
     (if state (conns w conn) \<noteq> STATE_FREE \<and> state (conns w conn) \<noteq> STATE_CLOSING
      then close_connection_from_worker (upd_conn w conn (\<lambda>c. c\<lparr>state := STATE_CLOSING\<rparr>)) conn
      else w)"

partial_function (option) process_expired_loop :: "timespec \<Rightarrow> world \<Rightarrow> world option" where
  "process_expired_loop now w =
     (if length (heap w) > 0
      then (if \<not> expired now (expiry_time (nodes w (heap w ! 0))) then Some w
            else case node_conn (nodes w (heap w ! 0)) of
                   None \<Rightarrow> None
                 | Some conn \<Rightarrow> process_expired_loop now (expire_connection w conn))
      else Some w)"

definition timer_heap_process_expired :: "world \<Rightarrow> world option" where
  "timer_heap_process_expired w = process_expired_loop (clock w) w"

section \<open>Optimized worker (simd\_utils.h, worker\_optimized.c)\<close>

text \<open>
  The portable variants of the scanning helpers. The SSE4.2 variant of
  \<open>simd_validate_url_chars\<close> applies the same test to every byte (its comparisons are
  signed, like \<open>char\<close>).
\<close>

fun simd_validate_url_chars :: "char list \<Rightarrow> bool" where
  "simd_validate_url_chars [] = True"
| "simd_validate_url_chars (c # cs) =
     (if c_char_val c < 0x20 \<or> c_char_val c > 0x7E then False
      else if c = CHR '' '' \<or> c = CHR 0x09 \<or> c = LF \<or> c = CR then False
      else simd_validate_url_chars cs)"

text \<open>
  \<open>simd_find_header_end\<close>: the offset of the first \<open>\r\n\r\n\<close> in the received data, as
  the variant without SIMD computes it. (For fewer than three bytes the C bound \<open>len - 3\<close>
  wraps and the scan leaves the data; the model stays inside it.) The SSE4.2 variant, which
  the flags of the Makefile select, tests the offsets 0 to 12 of each block of 16 bytes and
  then the last 14 offsets, so it can pass over a terminator that this scan finds, and for
  fewer than 16 bytes its last loop starts in front of the buffer. The two agree on what
  \<open>do_read_optimized\<close> hands them when that is at least 16 bytes long: data that
  \<open>simd_validate_url_chars\<close> has accepted holds no \<open>\r\<close>, and both find nothing in it.
\<close>

fun header_scan :: "nat \<Rightarrow> char list \<Rightarrow> nat option" where
  "header_scan i (a # b # c # d # rest) =
     (if a = CR \<and> b = LF \<and> c = CR \<and> d = LF then Some i
      else header_scan (i + 1) (b # c # d # rest))"
| "header_scan i _ = None"

definition simd_find_header_end :: "char list \<Rightarrow> nat option" where
  "simd_find_header_end data = header_scan 0 data"

text \<open>
  Modelled from the spec: \<open>lockfree_pool_release\<close> of lockfree\_pool.c, which is not
  among the sources. The spec's \<open>release(conn)\<close> returns the record to the pool and is
  idempotent for records already Free; a Free connection has descriptor -1 and no timer
  handle.
\<close>

definition lockfree_pool_release :: "world \<Rightarrow> nat \<Rightarrow> world" where
  "lockfree_pool_release w conn =
     (if state (conns w conn) = STATE_FREE then w
      else (upd_conn w conn (\<lambda>c. c\<lparr>state := STATE_FREE, fd := -1, timer_node := None\<rparr>))
             \<lparr>free_connections_stack := conn # free_connections_stack w\<rparr>)"

definition close_connection_from_worker_optimized :: "world \<Rightarrow> nat \<Rightarrow> world" where
  "close_connection_from_worker_optimized w conn =
     (if fd (conns w conn) = -1 then w
      else let d = fd (conns w conn);
               w1 = epoll_ctl_del w d;
               w2 = close_fd w1 d;
               w3 = timer_heap_remove w2 conn
           in lockfree_pool_release w3 conn)"

definition MAX_READ_ATTEMPTS_OPT :: nat where "MAX_READ_ATTEMPTS_OPT = 8"
definition MAX_WRITE_ATTEMPTS_OPT :: nat where "MAX_WRITE_ATTEMPTS_OPT = 16"

text \<open>The \<open>do ... while\<close> loop of \<open>do_read_optimized\<close>; \<open>data\<close> is the newly read chunk.\<close>

function read_loop_optimized ::
  "nat \<Rightarrow> recv_result list \<Rightarrow> connection \<Rightarrow> loop_exit \<times> connection \<times> recv_result list" where
  "read_loop_optimized read_attempts rs conn =
     (let space_left = BUFFER_SIZE - bytes_read conn
      in if space_left = 0 then (Loop_close, conn, rs)
         else case recv rs space_left of (nread, err, data, rs') \<Rightarrow>
           let conn1 = (if nread > 0
                        then conn\<lparr>read_buf := read_buf conn @ data,
                                  bytes_read := bytes_read conn + nat nread\<rparr>
                        else conn)
           in if nread > 0 \<and> bytes_read conn1 > MAX_REQUEST_SIZE then (Loop_close, conn1, rs')
              else if nread > 0 \<and> \<not> simd_validate_url_chars data then (Loop_close, conn1, rs')
              else if nread > 0 \<and> bytes_read conn1 < BUFFER_SIZE
                      \<and> read_attempts + 1 < MAX_READ_ATTEMPTS_OPT
              then read_loop_optimized (read_attempts + 1) rs' conn1
              else (Loop_done nread err, conn1, rs'))"
  by pat_completeness auto
termination
  by (relation "measure (\<lambda>(a, rs, conn). MAX_READ_ATTEMPTS_OPT - a)") auto

declare read_loop_optimized.simps [simp del]

text \<open>
  \<open>do_read_optimized\<close> after its read loop, and the function itself, with its return
  value: -1 closed, 0 ready to write, 1 keep reading.
\<close>

definition do_read_optimized_parse :: "parse_script \<Rightarrow> world \<Rightarrow> nat \<Rightarrow> int \<times> world" where
  "do_read_optimized_parse ps w conn =
     (case simd_find_header_end (read_buf (conns w conn)) of
        Some header_end \<Rightarrow>
          let header_len = header_end + 4
          in (case http_parser_execute ps (conns w conn) (take header_len (read_buf (conns w conn))) of
                (parsed, c'') \<Rightarrow>
                  let w4 = set_conn w conn c'';
                      e = http_errno (parser c'')
                  in if e \<noteq> HPE_OK \<and> e \<noteq> HPE_PAUSED
                     then (-1, close_connection_from_worker_optimized w4 conn)
                     else
                       let w5 = timer_heap_remove w4 conn
                       in (0, upd_conn w5 conn handle_request_and_prepare_response))
      | None \<Rightarrow>
          (1, epoll_ctl_mod w (fd (conns w conn))
                \<lparr>events = [EPOLLIN, EPOLLET, EPOLLONESHOT, EPOLLRDHUP], data_ptr = conn\<rparr>))"

definition do_read_optimized ::
  "recv_result list \<Rightarrow> parse_script \<Rightarrow> world \<Rightarrow> nat \<Rightarrow> int \<times> world" where
  "do_read_optimized rs ps w conn =
     (let w3 = rearm_request_timer w conn
      in case read_loop_optimized 0 rs (conns w3 conn) of
           (Loop_close, c', _) \<Rightarrow>
             (-1, close_connection_from_worker_optimized (set_conn w3 conn c') conn)
         | (Loop_done nread err, c', _) \<Rightarrow>
             if nread = 0 \<or> (nread < 0 \<and> err \<noteq> EAGAIN)
             then (-1, close_connection_from_worker_optimized (set_conn w3 conn c') conn)
             else do_read_optimized_parse ps (set_conn w3 conn c') conn)"

text \<open>
  The scatter list of one pass of the loop of \<open>do_write_optimized\<close>: the lengths of the
  \<open>iov_count\<close> entries of \<open>iov\<close>.
\<close>

definition write_iov_optimized :: "connection \<Rightarrow> nat list" where
  "write_iov_optimized conn =
     (let len0 = iov_len (response_iov0 conn);
          len1 = iov_len (response_iov1 conn);
          remaining = len0 + len1 - bytes_sent conn
      in if bytes_sent conn < len0
         then (if remaining > len0 - bytes_sent conn
               then [len0 - bytes_sent conn, len1]
               else [len0 - bytes_sent conn])
         else [len1 - (bytes_sent conn - len0)])"

text \<open>The \<open>while\<close> loop of \<open>do_write_optimized\<close>.\<close>

function write_loop_optimized ::
  "nat \<Rightarrow> writev_result list \<Rightarrow> connection \<Rightarrow> write_exit \<times> connection \<times> writev_result list" where
  "write_loop_optimized write_attempts ws conn =
     (let total_len = iov_len (response_iov0 conn) + iov_len (response_iov1 conn)
      in if bytes_sent conn < total_len \<and> write_attempts < MAX_WRITE_ATTEMPTS_OPT
         then
           case writev ws (write_iov_optimized conn) of (nwritten, err, ws') \<Rightarrow>
             if nwritten < 0
             then (if err = EAGAIN then (Write_again, conn, ws') else (Write_error, conn, ws'))
             else write_loop_optimized (write_attempts + 1) ws'
                    (conn\<lparr>bytes_sent := bytes_sent conn + nat nwritten\<rparr>)
         else (Write_done write_attempts, conn, ws))"
  by pat_completeness auto
termination
  by (relation "measure (\<lambda>(a, ws, conn). MAX_WRITE_ATTEMPTS_OPT - a)") auto

declare write_loop_optimized.simps [simp del]

definition do_write_optimized :: "writev_result list \<Rightarrow> world \<Rightarrow> nat \<Rightarrow> int \<times> world" where
  "do_write_optimized ws w conn =
     (let total_len = iov_len (response_iov0 (conns w conn)) + iov_len (response_iov1 (conns w conn))
      in if total_len > 65536 then (-1, close_connection_from_worker_optimized w conn)
         else case write_loop_optimized 0 ws (conns w conn) of
           (Write_again, c', _) \<Rightarrow>
             (1, epoll_ctl_mod (set_conn w conn c') (fd c')
                   \<lparr>events = [EPOLLOUT, EPOLLET, EPOLLONESHOT, EPOLLRDHUP], data_ptr = conn\<rparr>)
         | (Write_error, c', _) \<Rightarrow>
             (-1, close_connection_from_worker_optimized (set_conn w conn c') conn)
         | (Write_done write_attempts, c', _) \<Rightarrow>
             if write_attempts \<ge> MAX_WRITE_ATTEMPTS_OPT
             then (-1, close_connection_from_worker_optimized (set_conn w conn c') conn)
             else if keep_alive c'
             then
               let w1 = set_conn w conn
                          (c'\<lparr>state := STATE_KEEP_ALIVE, parser := http_parser_init,
                              bytes_read := 0, read_buf := [], bytes_sent := 0, url := []\<rparr>);
                   w2 = epoll_ctl_mod w1 (fd c')
                          \<lparr>events = [EPOLLIN, EPOLLET, EPOLLONESHOT, EPOLLRDHUP], data_ptr = conn\<rparr>
               in (0, snd (timer_heap_add w2 conn KEEP_ALIVE_TIMEOUT_MS))
             else (0, close_connection_from_worker_optimized (set_conn w conn c') conn))"

section \<open>Reference definitions and sample states\<close>

text \<open>
  The target rule in the words of the specification: non-empty, at most 255 bytes, a
  leading \<open>/\<close>, only characters of \<open>[A-Za-z0-9/\-_.?=&]\<close>, neither \<open>..\<close> nor \<open>//\<close>.
\<close>

definition spec_target_ok :: "string \<Rightarrow> bool" where
  "spec_target_ok u =
     (u \<noteq> [] \<and> length u \<le> 255 \<and> hd u = CHR ''/'' \<and> list_all is_valid_url_char u
      \<and> strstr u ''..'' = None \<and> strstr u ''//'' = None)"

definition not_found_headers :: string where
  "not_found_headers =
     ''HTTP/1.1 404 Not Found'' @ CRLF @
     ''Content-Type: application/json'' @ CRLF @
     ''Content-Length: 21'' @ CRLF @
     ''Server: BFF/1.0'' @ CRLF @
     ''X-Content-Type-Options: nosniff'' @ CRLF @
     ''X-Frame-Options: DENY'' @ CRLF @
     ''Connection: close'' @ CRLF @ CRLF"

text \<open>A connection record as \<open>connection_get\<close> leaves it, with descriptor 5.\<close>

definition conn0 :: connection where
  "conn0 = \<lparr>fd = 5, state = STATE_READING, parser = http_parser_init,
            url = [], keep_alive = False, read_buf = [], bytes_read = 0,
            response_iov0 = \<lparr>iov_base = [], iov_len = 0\<rparr>,
            response_iov1 = \<lparr>iov_base = [], iov_len = 0\<rparr>,
            response_headers = [], bytes_sent = 0, timer_node = None,
            last_active = \<lparr>tv_sec = 0, tv_nsec = 0\<rparr>\<rparr>"

text \<open>
  A worker right after start-up: every connection record Free, two of them on the free
  stack, an empty timer heap of capacity 4, the clock at 100 s. \<open>w_reading\<close> is that
  worker after it has accepted one connection on descriptor 5.
\<close>

definition world0 :: world where
  "world0 = \<lparr>conns = (\<lambda>_. conn0\<lparr>fd := -1, state := STATE_FREE\<rparr>),
             free_connections_stack = [0, 1],
             heap = [],
             th_capacity = 4,
             nodes = (\<lambda>_. \<lparr>expiry_time = \<lparr>tv_sec = 0, tv_nsec = 0\<rparr>, node_conn = None,
                              heap_index = -1\<rparr>),
             free_head = [0, 1, 2, 3],
             clock = \<lparr>tv_sec = 100, tv_nsec = 0\<rparr>,
             epoll_reg = (\<lambda>_. None),
             open_fds = {}\<rparr>"

definition w_reading :: world where
  "w_reading =
     \<lparr>conns = (\<lambda>_. conn0\<lparr>fd := -1, state := STATE_FREE\<rparr>)
                (0 := conn0\<lparr>last_active := \<lparr>tv_sec = 100, tv_nsec = 0\<rparr>,
                           timer_node := Some 0\<rparr>),
      free_connections_stack = [1],
      heap = [0],
      th_capacity = 4,
      nodes = (\<lambda>_. \<lparr>expiry_time = \<lparr>tv_sec = 0, tv_nsec = 0\<rparr>, node_conn = None,
                       heap_index = -1\<rparr>)
                (0 := \<lparr>expiry_time = \<lparr>tv_sec = 105, tv_nsec = 0\<rparr>, node_conn = Some 0,
                        heap_index = 0\<rparr>),
      free_head = [1, 2, 3],
      clock = \<lparr>tv_sec = 100, tv_nsec = 0\<rparr>,
      epoll_reg = (\<lambda>_. None)(5 \<mapsto> \<lparr>events = [EPOLLIN, EPOLLET, EPOLLONESHOT],
                                       data_ptr = 0\<rparr>),
      open_fds = {5}\<rparr>"

definition minimal_request :: string where
  "minimal_request = ''GET / HTTP/1.1'' @ CRLF @ ''Host: x'' @ CRLF @ CRLF"

text \<open>
  What the parser library reports for \<open>minimal_request\<close>, which declares no content
  length: \<open>on_headers_complete\<close> is called with \<open>content_length = ULLONG_MAX\<close>, at the last
  byte of the request.
\<close>

definition minimal_parse :: parse_script where
  "minimal_parse = \<lparr>ps_events = [On_url 4 1, On_headers_complete ULLONG_MAX 27 True],
                     ps_parsed = 26, ps_errno = HPE_OK, ps_major = 1, ps_minor = 1,
                     ps_upgrade = False, ps_method = HTTP_GET\<rparr>"

text \<open>The bound on \<open>bytes_sent\<close>: at most the total length of the two segments.\<close>

definition sent_bounded :: "connection \<Rightarrow> bool" where
  "sent_bounded conn =
     (bytes_sent conn \<le> iov_len (response_iov0 conn) + iov_len (response_iov1 conn))"

text \<open>The connection of \<open>w_reading\<close> after a GET for the unknown target \<open>/nope\<close> was parsed.\<close>

definition w_parsed :: world where
  "w_parsed = upd_conn w_reading 0
     (\<lambda>c. c\<lparr>parser := (parser c)\<lparr>http_errno := HPE_OK, http_major := 1, http_minor := 1,
                                   http_method := HTTP_GET\<rparr>,
             url := ''/nope'', keep_alive := True\<rparr>)"

text \<open>
  \<open>w_parsed\<close> at the point where the dispatch branch of \<open>do_read\<close> calls \<open>do_write\<close>:
  timer cancelled, response prepared.
\<close>

definition w_writing :: world where
  "w_writing = upd_conn (timer_heap_remove w_parsed 0) 0 handle_request_and_prepare_response"

text \<open>
  A header block of exactly 8192 bytes that ends in \<open>\r\n\r\n\<close>, and the worker
  \<open>w_reading\<close> once the first 4096 bytes of it are in the read buffer.
\<close>

definition req8192 :: string where
  "req8192 = ''GET /health HTTP/1.1'' @ CRLF @
             ''X-Pad: '' @ concat (replicate 4079 ''ab'') @ ''a'' @ CRLF @ CRLF"

definition w_full :: world where
  "w_full = upd_conn w_reading 0 (\<lambda>c. c\<lparr>read_buf := take 4096 req8192, bytes_read := 4096\<rparr>)"

definition incomplete_parse :: parse_script where
  "incomplete_parse = \<lparr>ps_events = [On_url 4 7], ps_parsed = 4096, ps_errno = HPE_OK,
                        ps_major = 1, ps_minor = 1, ps_upgrade = False, ps_method = HTTP_GET\<rparr>"

text \<open>
  A read that holds \<open>\r\n\r\n\<close> at offset \<open>i\<close> and further bytes behind it.
\<close>

definition trailing_bytes :: "char list \<Rightarrow> nat \<Rightarrow> bool" where
  "trailing_bytes data i = (take 4 (drop i data) = CRLF @ CRLF \<and> i + 4 < length data)"

text \<open>A script in which \<open>on_headers_complete_callback\<close> is called with values it refuses.\<close>

definition rejects_headers :: "parser_event list \<Rightarrow> bool" where
  "rejects_headers es =
     list_ex (\<lambda>e. case e of On_headers_complete content_length nread ka \<Rightarrow>
                               content_length > 0 \<or> nread > 8192
                         | On_url off len \<Rightarrow> False) es"

text \<open>
  A request that declares \<open>Content-Length: 0\<close>, followed in the same read by the first
  line of a second request, and what the parser library reports for these 54 bytes:
  the callback accepts the headers of the first message (the declared length is 0), the
  library finishes that message and consumes the rest as the start of the next one.
\<close>

definition cl0_request :: string where
  "cl0_request = ''GET / HTTP/1.1'' @ CRLF @ ''Content-Length: 0'' @ CRLF @ CRLF"

definition pipelined_request :: string where
  "pipelined_request = cl0_request @ ''GET /x HTTP/1.1'' @ CRLF"

definition pipelined_parse :: parse_script where
  "pipelined_parse = \<lparr>ps_events = [On_url 4 1, On_headers_complete 0 37 True, On_url 41 2],
                       ps_parsed = 54, ps_errno = HPE_OK, ps_major = 1, ps_minor = 1,
                       ps_upgrade = False, ps_method = HTTP_GET\<rparr>"

text \<open>
  The same with \<open>minimal_request\<close> in front, which declares no content length: the
  library stops at the end of its headers, where the callback refuses them.
\<close>

definition pipelined_plain :: string where
  "pipelined_plain = minimal_request @ ''GET /x HTTP/1.1'' @ CRLF"

text \<open>
  \<open>w_reading\<close> with a timer heap made by \<open>timer_heap_init\<close> with a single slot, which the
  timer of connection 0 occupies (heap and node pool full), and \<open>w_reading\<close> with an empty
  connection pool.
\<close>

definition w_heap_full :: world where
  "w_heap_full = w_reading\<lparr>th_capacity := 1, free_head := []\<rparr>"


text \<open>
  \<open>w_reading\<close> six seconds later, when the timer of connection 0 has expired, with
  that connection already Free, already Closing, or with its descriptor at -1.
\<close>

definition w_late :: world where
  "w_late = w_reading\<lparr>clock := \<lparr>tv_sec = 106, tv_nsec = 0\<rparr>\<rparr>"

definition w_late_free :: world where
  "w_late_free = upd_conn w_late 0 (\<lambda>c. c\<lparr>state := STATE_FREE\<rparr>)"

definition w_late_closing :: world where
  "w_late_closing = upd_conn w_late 0 (\<lambda>c. c\<lparr>state := STATE_CLOSING\<rparr>)"

definition w_late_nofd :: world where
  "w_late_nofd = upd_conn w_late 0 (\<lambda>c. c\<lparr>fd := -1\<rparr>)"

text \<open>
  The loop of \<open>timer_heap_process_expired\<close> cannot make progress: the root of the heap
  has expired and its connection is Free or Closing, so the pass changes nothing.
\<close>

definition stuck :: "timespec \<Rightarrow> world \<Rightarrow> bool" where
  "stuck now w =
     (length (heap w) > 0 \<and> expired now (expiry_time (nodes w (heap w ! 0)))
      \<and> (case node_conn (nodes w (heap w ! 0)) of
            None \<Rightarrow> True
          | Some c \<Rightarrow> state (conns w c) = STATE_FREE \<or> state (conns w c) = STATE_CLOSING))"

section \<open>Invariant of the timer heap\<close>

text \<open>
  \<open>heap_wf\<close>: the heap holds each node once and every node knows its slot.
  \<open>back_ok\<close>: every node in the heap belongs to a connection whose timer handle is that
  node. \<open>fwd_ok\<close>: every timer handle points to a node in the heap that belongs to the
  connection. \<open>pool_wf\<close>: a node is either free or in the heap, and the two together are the
  \<open>capacity\<close> nodes of the pool. \<open>live_ok\<close>: only connections that are neither Free nor
  Closing and have a descriptor hold a timer. \<open>writing_ok\<close>: a connection in state Writing
  holds none.
\<close>

definition heap_wf :: "world \<Rightarrow> bool" where
  "heap_wf w =
     (distinct (heap w) \<and> (\<forall>i < length (heap w). heap_index (nodes w (heap w ! i)) = int i))"

definition back_ok :: "world \<Rightarrow> bool" where
  "back_ok w =
     (\<forall>n \<in> set (heap w). \<exists>c. node_conn (nodes w n) = Some c \<and> timer_node (conns w c) = Some n)"

definition fwd_ok :: "world \<Rightarrow> bool" where
  "fwd_ok w =
     (\<forall>c n. timer_node (conns w c) = Some n \<longrightarrow> n \<in> set (heap w) \<and> node_conn (nodes w n) = Some c)"

definition pool_wf :: "world \<Rightarrow> bool" where
  "pool_wf w =
     (distinct (free_head w) \<and> set (free_head w) \<inter> set (heap w) = {}
      \<and> length (free_head w) + length (heap w) = th_capacity w)"

definition tinv :: "world \<Rightarrow> bool" where
  "tinv w = (heap_wf w \<and> back_ok w \<and> fwd_ok w \<and> pool_wf w)"

definition live_ok :: "world \<Rightarrow> bool" where
  "live_ok w =
     (\<forall>c. timer_node (conns w c) \<noteq> None \<longrightarrow>
        state (conns w c) \<noteq> STATE_FREE \<and> state (conns w c) \<noteq> STATE_CLOSING
        \<and> fd (conns w c) \<noteq> -1)"

definition writing_ok :: "world \<Rightarrow> bool" where
  "writing_ok w = (\<forall>c. state (conns w c) = STATE_WRITING \<longrightarrow> timer_node (conns w c) = None)"

definition world_inv :: "world \<Rightarrow> bool" where
  "world_inv w = (tinv w \<and> live_ok w \<and> writing_ok w)"

text \<open>The timer entries of a connection: the nodes in the heap that refer to it.\<close>

definition timers_of :: "world \<Rightarrow> nat \<Rightarrow> nat set" where
  "timers_of w c = {n \<in> set (heap w). node_conn (nodes w n) = Some c}"

text \<open>A connection whose timer, if it has one, has not expired at time \<open>now\<close>.\<close>

definition not_due :: "timespec \<Rightarrow> world \<Rightarrow> nat \<Rightarrow> bool" where
  "not_due now w c =
     (case timer_node (conns w c) of
        None \<Rightarrow> True
      | Some n \<Rightarrow> \<not> expired now (expiry_time (nodes w n)))"

text \<open>
  The first line of a request, sent alone (the slow client of the specification), and
  what the parser reports for these 22 bytes.
\<close>

definition first_line :: string where
  "first_line = ''GET /health HTTP/1.1'' @ CRLF"

definition first_line_parse :: parse_script where
  "first_line_parse = \<lparr>ps_events = [On_url 4 7], ps_parsed = 22, ps_errno = HPE_OK,
                        ps_major = 1, ps_minor = 1, ps_upgrade = False, ps_method = HTTP_GET\<rparr>"

text \<open>
  \<open>free_ok\<close>: the free stack of the connection pool holds each record once, and only
  records in \<open>STATE_FREE\<close>; a record in any other state has a descriptor; the records in
  use are among the \<open>MAX_CONNECTIONS\<close> records of the pool, and the timer heap has more
  slots than that. \<open>armed_ok\<close>: between two steps of the loop no record is in
  \<open>STATE_CLOSING\<close>, and every record in \<open>STATE_READING\<close> or \<open>STATE_KEEP_ALIVE\<close> holds a
  timer. Together with the invariant of the timer heap this is the invariant of a
  worker.
\<close>

definition free_ok :: "world \<Rightarrow> bool" where
  "free_ok w = (distinct (free_connections_stack w)
                \<and> (\<forall>c \<in> set (free_connections_stack w).
                      state (conns w c) = STATE_FREE \<and> c < MAX_CONNECTIONS)
                \<and> (\<forall>c. state (conns w c) \<noteq> STATE_FREE \<longrightarrow>
                      fd (conns w c) \<noteq> -1 \<and> c < MAX_CONNECTIONS)
                \<and> MAX_CONNECTIONS < th_capacity w)"

definition armed :: "connection \<Rightarrow> bool" where
  "armed conn = ((state conn = STATE_READING \<or> state conn = STATE_KEEP_ALIVE \<longrightarrow>
                    timer_node conn \<noteq> None)
                 \<and> state conn \<noteq> STATE_CLOSING)"

definition armed_ok :: "world \<Rightarrow> bool" where
  "armed_ok w = (\<forall>c. armed (conns w c))"

definition worker_inv :: "world \<Rightarrow> bool" where
  "worker_inv w = (world_inv w \<and> free_ok w \<and> armed_ok w)"


text \<open>
  A worker when it enters its loop: \<open>connection_pool_init\<close> has marked every record Free
  and pushed the indices \<open>0 .. MAX_CONNECTIONS - 1\<close>, \<open>timer_heap_init\<close> has made an empty
  heap of \<open>TIMER_CAPACITY\<close> = 65536 slots and chained the nodes \<open>0 .. 65535\<close> of the pool,
  last node first. \<open>ns\<close> is the content of the freshly allocated nodes.
\<close>

definition TIMER_CAPACITY :: nat where "TIMER_CAPACITY = 65536"

definition worker_start :: "(nat \<Rightarrow> timer_node) \<Rightarrow> timespec \<Rightarrow> world" where
  "worker_start ns now =
     \<lparr>conns = (\<lambda>_. conn0\<lparr>fd := -1, state := STATE_FREE, timer_node := None\<rparr>),
      free_connections_stack = rev [0..<MAX_CONNECTIONS],
      heap = [],
      th_capacity = TIMER_CAPACITY,
      nodes = ns,
      free_head = rev [0..<TIMER_CAPACITY],
      clock = now,
      epoll_reg = (\<lambda>_. None),
      open_fds = {}\<rparr>"

text \<open>
  A run of the base worker from its start, at 100 s: \<open>w_accepted\<close> after it has accepted
  one connection on descriptor 5, into record 16383, the top of the free stack;
  \<open>w_requested\<close> after \<open>do_read\<close> has then read a complete keep-alive request for the
  route \<open>/health\<close> that declares \<open>Content-Length: 0\<close>, 43 bytes which the parser consumes.
  \<open>w_prepared\<close> is \<open>w_requested\<close> after the two statements that precede the write in the
  dispatch branch of either worker: the timer is cancelled and the response prepared.
\<close>

definition w_start :: world where
  "w_start = worker_start (\<lambda>_. \<lparr>expiry_time = \<lparr>tv_sec = 0, tv_nsec = 0\<rparr>, node_conn = None,
                                  heap_index = -1\<rparr>) \<lparr>tv_sec = 100, tv_nsec = 0\<rparr>"

definition w_accepted :: world where
  "w_accepted = handle_new_connection [Accept_fd 5 True] w_start"

definition health_request :: string where
  "health_request = ''GET /health HTTP/1.1'' @ CRLF @ ''Content-Length: 0'' @ CRLF @ CRLF"

definition health_parse :: parse_script where
  "health_parse = \<lparr>ps_events = [On_url 4 7, On_headers_complete 0 43 True], ps_parsed = 43,
                    ps_errno = HPE_OK, ps_major = 1, ps_minor = 1, ps_upgrade = False,
                    ps_method = HTTP_GET\<rparr>"

definition w_requested :: world where
  "w_requested = do_read [Recv_data health_request] health_parse [] w_accepted 16383"

definition w_prepared :: world where
  "w_prepared = upd_conn (timer_heap_remove w_requested 16383) 16383
                  handle_request_and_prepare_response"

section \<open>Properties of the request handler\<close>

lemma dec_404: "dec 404 = ''404''"
  by (simp add: dec.simps digit_char_def)

lemma dec_21: "dec 21 = ''21''"
  by (simp add: dec.simps digit_char_def)

lemma strstr_append_None: "strstr (u @ v) n = None \<Longrightarrow> strstr u n = None"
proof (induction u)
  case Nil
  then show ?case by (cases v) (auto split: if_splits)
next
  case (Cons h u)
  then show ?case by (auto split: if_splits dest: prefix_prefix [where zs = v])
qed

lemma valid_chars_no_NUL: "list_all is_valid_url_char u \<Longrightarrow> NUL \<notin> set u"
  by (auto simp: list_all_iff is_valid_url_char_def isalnum_def NUL_def)

lemma c_str_append: "NUL \<notin> set u \<Longrightarrow> c_str (u @ rest) = u @ c_str rest"
  by (auto simp: c_str_def intro: takeWhile_append2)

text \<open>Whatever \<open>validate_url\<close> accepts satisfies the rule of the specification.\<close>

lemma validate_url_sound: "validate_url u rest \<Longrightarrow> spec_target_ok u"
  by (auto simp: validate_url_def spec_target_ok_def URL_MAX_LEN_def c_str_append
      dest!: valid_chars_no_NUL strstr_append_None split: if_splits)

text \<open>
  C8. The target \<open>/health\<close> satisfies every condition of the rule, yet
  \<open>validate_url\<close> rejects it and \<open>on_url_callback\<close> fails the parse when a later header
  of the same request contains \<open>//\<close>: the two \<open>strstr\<close> calls scan the read buffer
  beyond the \<open>len\<close> bytes of the target.
\<close>

theorem validate_url_reads_past_target:
  "spec_target_ok ''/health'' \<and>
   \<not> validate_url ''/health'' ('' HTTP/1.1'' @ CRLF @ ''Referer: http://h/'' @ CRLF @ CRLF) \<and>
   fst (on_url_callback conn ''/health''
          ('' HTTP/1.1'' @ CRLF @ ''Referer: http://h/'' @ CRLF @ CRLF)) = -1"
  by (simp add: spec_target_ok_def on_url_callback_def validate_url_def URL_MAX_LEN_def
      is_valid_url_char_def isalnum_def c_str_def CRLF_def CR_def LF_def NUL_def)

lemma route_key_slash:
  assumes "u \<noteq> []" "hd u = CHR ''/''"
  shows "route_key u \<noteq> [] \<and> hd (route_key u) = CHR ''/''"
proof -
  from assms obtain t where u: "u = CHR ''/'' # t" by (cases u) auto
  show ?thesis by (simp add: u route_key_def c_str_def NUL_def URL_MAX_LEN_def)
qed

lemma choose_response_404:
  assumes "http_method (parser conn) = HTTP_GET" "url conn \<noteq> []" "hd (url conn) = CHR ''/''"
    "routes_lookup (route_key (url conn)) = None"
  shows "choose_response conn = (404, ''Not Found'', not_found_json, False)"
  using assms route_key_slash [of "url conn"]
  by (simp add: choose_response_def Let_def)

lemma length_not_found_json: "length not_found_json = 21"
  by (simp add: not_found_json_def)

lemma format_headers_404:
  "h = ''Connection: close'' @ CRLF \<Longrightarrow>
   format_headers 404 ''Not Found'' 21 h = not_found_headers"
  by (simp add: format_headers_def not_found_headers_def dec_404 dec_21)

lemma length_not_found_headers: "length not_found_headers = 170"
  by (simp add: not_found_headers_def CRLF_def)

lemma snprintf_fits: "length s < sz \<Longrightarrow> snprintf sz s = (s, length s)"
  by (simp add: snprintf_def)

lemma handle_request_404:
  assumes "choose_response conn = (404, ''Not Found'', not_found_json, False)"
  shows "handle_request_and_prepare_response conn =
           conn\<lparr>keep_alive := False,
                response_headers := not_found_headers,
                response_iov0 := \<lparr>iov_base = not_found_headers, iov_len = 170\<rparr>,
                response_iov1 := \<lparr>iov_base = not_found_json, iov_len = 21\<rparr>,
                bytes_sent := 0,
                state := STATE_WRITING\<rparr>"
  unfolding handle_request_and_prepare_response_def assms
  by (simp add: length_not_found_json format_headers_404 snprintf_fits length_not_found_headers)

text \<open>
  C9. A GET request whose stored target starts with \<open>/\<close> (as every target accepted by
  \<open>on_url_callback\<close> does) and whose routing key is not in the route table gets the 404
  response: body \<open>{"error":"Not Found"}\<close>, \<open>Content-Length: 21\<close>, the length of that
  body, \<open>Connection: close\<close>, and keep-alive switched off whatever the client asked for.
\<close>

theorem unknown_route_yields_404:
  assumes "http_method (parser conn) = HTTP_GET"
    and "url conn \<noteq> []" and "hd (url conn) = CHR ''/''"
    and "routes_lookup (route_key (url conn)) = None"
  shows "response_iov1 (handle_request_and_prepare_response conn) =
           \<lparr>iov_base = ''{\"error\":\"Not Found\"}'', iov_len = 21\<rparr>
       \<and> length ''{\"error\":\"Not Found\"}'' = 21
       \<and> response_iov0 (handle_request_and_prepare_response conn) =
           \<lparr>iov_base = ''HTTP/1.1 404 Not Found'' @ CRLF @
                        ''Content-Type: application/json'' @ CRLF @
                        ''Content-Length: 21'' @ CRLF @
                        ''Server: BFF/1.0'' @ CRLF @
                        ''X-Content-Type-Options: nosniff'' @ CRLF @
                        ''X-Frame-Options: DENY'' @ CRLF @
                        ''Connection: close'' @ CRLF @ CRLF,
            iov_len = 170\<rparr>
       \<and> keep_alive (handle_request_and_prepare_response conn) = False
       \<and> bytes_sent (handle_request_and_prepare_response conn) = 0
       \<and> state (handle_request_and_prepare_response conn) = STATE_WRITING"
  by (simp add: handle_request_404 [OF choose_response_404 [OF assms]]
      not_found_headers_def not_found_json_def)

theorem unknown_route_yields_404_witness:
  "http_method (parser (conn0\<lparr>parser := (parser conn0)\<lparr>http_method := HTTP_GET\<rparr>,
                               url := ''/nope'', keep_alive := True\<rparr>)) = HTTP_GET
   \<and> keep_alive (conn0\<lparr>parser := (parser conn0)\<lparr>http_method := HTTP_GET\<rparr>,
                       url := ''/nope'', keep_alive := True\<rparr>) = True
   \<and> response_iov1 (handle_request_and_prepare_response
        (conn0\<lparr>parser := (parser conn0)\<lparr>http_method := HTTP_GET\<rparr>,
               url := ''/nope'', keep_alive := True\<rparr>)) =
           \<lparr>iov_base = ''{\"error\":\"Not Found\"}'', iov_len = 21\<rparr>
   \<and> keep_alive (handle_request_and_prepare_response
        (conn0\<lparr>parser := (parser conn0)\<lparr>http_method := HTTP_GET\<rparr>,
               url := ''/nope'', keep_alive := True\<rparr>)) = False"
  using unknown_route_yields_404
          [of "conn0\<lparr>parser := (parser conn0)\<lparr>http_method := HTTP_GET\<rparr>,
                      url := ''/nope'', keep_alive := True\<rparr>"]
  by (simp add: conn0_def route_key_def routes_lookup_def c_str_def NUL_def URL_MAX_LEN_def)

section \<open>Frame properties of the timer heap\<close>

lemma swap_nodes_frame [simp]:
  "conns (swap_nodes w a b) = conns w"
  "free_connections_stack (swap_nodes w a b) = free_connections_stack w"
  "th_capacity (swap_nodes w a b) = th_capacity w"
  "free_head (swap_nodes w a b) = free_head w"
  "clock (swap_nodes w a b) = clock w"
  "epoll_reg (swap_nodes w a b) = epoll_reg w"
  "open_fds (swap_nodes w a b) = open_fds w"
  by (simp_all add: swap_nodes_def upd_node_def Let_def)

lemma sift_up_frame [simp]:
  "conns (sift_up w i) = conns w"
  "free_connections_stack (sift_up w i) = free_connections_stack w"
  "th_capacity (sift_up w i) = th_capacity w"
  "free_head (sift_up w i) = free_head w"
  "clock (sift_up w i) = clock w"
  "epoll_reg (sift_up w i) = epoll_reg w"
  "open_fds (sift_up w i) = open_fds w"
  by (induction w i rule: sift_up.induct; subst sift_up.simps; simp add: Let_def)+

lemma sift_down_frame [simp]:
  "conns (sift_down w i) = conns w"
  "free_connections_stack (sift_down w i) = free_connections_stack w"
  "th_capacity (sift_down w i) = th_capacity w"
  "free_head (sift_down w i) = free_head w"
  "clock (sift_down w i) = clock w"
  "epoll_reg (sift_down w i) = epoll_reg w"
  "open_fds (sift_down w i) = open_fds w"
  by (induction w i rule: sift_down.induct; subst sift_down.simps; simp add: Let_def)+

lemma length_heap_sift_up [simp]: "length (heap (sift_up w i)) = length (heap w)"
  by (induction w i rule: sift_up.induct; subst sift_up.simps; simp add: Let_def)

lemma length_heap_sift_down [simp]: "length (heap (sift_down w i)) = length (heap w)"
  by (induction w i rule: sift_down.induct; subst sift_down.simps; simp add: Let_def)

lemma take_out_frame [simp]:
  "conns (take_out w i) = conns w" "free_head (take_out w i) = free_head w"
  "th_capacity (take_out w i) = th_capacity w" "clock (take_out w i) = clock w"
  "epoll_reg (take_out w i) = epoll_reg w" "open_fds (take_out w i) = open_fds w"
  "free_connections_stack (take_out w i) = free_connections_stack w"
  by (simp_all add: take_out_def upd_node_def Let_def)

lemma timer_heap_remove_frame [simp]:
  "free_connections_stack (timer_heap_remove w c) = free_connections_stack w"
  "th_capacity (timer_heap_remove w c) = th_capacity w"
  "clock (timer_heap_remove w c) = clock w"
  "epoll_reg (timer_heap_remove w c) = epoll_reg w"
  "open_fds (timer_heap_remove w c) = open_fds w"
  by (simp_all add: timer_heap_remove_def timer_node_pool_release_def upd_conn_def upd_node_def
      Let_def split: option.split)

lemma timer_heap_remove_conns:
  "conns (timer_heap_remove w c) x = (conns w x)\<lparr>timer_node := timer_node (conns (timer_heap_remove w c) x)\<rparr>"
  by (simp add: timer_heap_remove_def timer_node_pool_release_def upd_conn_def upd_node_def
      Let_def split: option.split)

lemma timer_heap_remove_other:
  "x \<noteq> c \<Longrightarrow> conns (timer_heap_remove w c) x = conns w x"
  by (simp add: timer_heap_remove_def timer_node_pool_release_def upd_conn_def upd_node_def
      Let_def split: option.split)

lemma timer_heap_add_frame [simp]:
  "free_connections_stack (snd (timer_heap_add w c t)) = free_connections_stack w"
  "th_capacity (snd (timer_heap_add w c t)) = th_capacity w"
  "clock (snd (timer_heap_add w c t)) = clock w"
  "epoll_reg (snd (timer_heap_add w c t)) = epoll_reg w"
  "open_fds (snd (timer_heap_add w c t)) = open_fds w"
  by (simp_all add: timer_heap_add_def timer_node_pool_get_def upd_conn_def upd_node_def
      Let_def split: list.split)

lemma timer_heap_add_conns:
  "conns (snd (timer_heap_add w c t)) x = (conns w x)\<lparr>timer_node := timer_node (conns (snd (timer_heap_add w c t)) x)\<rparr>"
  by (simp add: timer_heap_add_def timer_node_pool_get_def upd_conn_def upd_node_def
      Let_def split: list.split)

lemma timer_heap_add_other:
  "x \<noteq> c \<Longrightarrow> conns (snd (timer_heap_add w c t)) x = conns w x"
  by (simp add: timer_heap_add_def timer_node_pool_get_def upd_conn_def upd_node_def
      Let_def split: list.split)

lemma timer_heap_remove_fields [simp]:
  "fd (conns (timer_heap_remove w c) x) = fd (conns w x)"
  "state (conns (timer_heap_remove w c) x) = state (conns w x)"
  "parser (conns (timer_heap_remove w c) x) = parser (conns w x)"
  "url (conns (timer_heap_remove w c) x) = url (conns w x)"
  "keep_alive (conns (timer_heap_remove w c) x) = keep_alive (conns w x)"
  "read_buf (conns (timer_heap_remove w c) x) = read_buf (conns w x)"
  "bytes_read (conns (timer_heap_remove w c) x) = bytes_read (conns w x)"
  "response_iov0 (conns (timer_heap_remove w c) x) = response_iov0 (conns w x)"
  "response_iov1 (conns (timer_heap_remove w c) x) = response_iov1 (conns w x)"
  "response_headers (conns (timer_heap_remove w c) x) = response_headers (conns w x)"
  "bytes_sent (conns (timer_heap_remove w c) x) = bytes_sent (conns w x)"
  "last_active (conns (timer_heap_remove w c) x) = last_active (conns w x)"
  by (subst timer_heap_remove_conns, simp)+

lemma timer_heap_add_fields [simp]:
  "fd (conns (snd (timer_heap_add w c t)) x) = fd (conns w x)"
  "state (conns (snd (timer_heap_add w c t)) x) = state (conns w x)"
  "parser (conns (snd (timer_heap_add w c t)) x) = parser (conns w x)"
  "url (conns (snd (timer_heap_add w c t)) x) = url (conns w x)"
  "keep_alive (conns (snd (timer_heap_add w c t)) x) = keep_alive (conns w x)"
  "read_buf (conns (snd (timer_heap_add w c t)) x) = read_buf (conns w x)"
  "bytes_read (conns (snd (timer_heap_add w c t)) x) = bytes_read (conns w x)"
  "response_iov0 (conns (snd (timer_heap_add w c t)) x) = response_iov0 (conns w x)"
  "response_iov1 (conns (snd (timer_heap_add w c t)) x) = response_iov1 (conns w x)"
  "response_headers (conns (snd (timer_heap_add w c t)) x) = response_headers (conns w x)"
  "bytes_sent (conns (snd (timer_heap_add w c t)) x) = bytes_sent (conns w x)"
  "last_active (conns (snd (timer_heap_add w c t)) x) = last_active (conns w x)"
  by (subst timer_heap_add_conns, simp)+

lemma conns_upd_conn [simp]: "conns (upd_conn w c f) = (conns w)(c := f (conns w c))"
  by (simp add: upd_conn_def)

lemma conns_set_conn [simp]: "conns (set_conn w c v) = (conns w)(c := v)"
  by (simp add: set_conn_def)

lemma upd_conn_frame [simp]:
  "free_connections_stack (upd_conn w c f) = free_connections_stack w"
  "heap (upd_conn w c f) = heap w"
  "th_capacity (upd_conn w c f) = th_capacity w"
  "nodes (upd_conn w c f) = nodes w"
  "free_head (upd_conn w c f) = free_head w"
  "clock (upd_conn w c f) = clock w"
  "epoll_reg (upd_conn w c f) = epoll_reg w"
  "open_fds (upd_conn w c f) = open_fds w"
  by (simp_all add: upd_conn_def)

lemma set_conn_frame [simp]:
  "free_connections_stack (set_conn w c v) = free_connections_stack w"
  "heap (set_conn w c v) = heap w"
  "th_capacity (set_conn w c v) = th_capacity w"
  "nodes (set_conn w c v) = nodes w"
  "free_head (set_conn w c v) = free_head w"
  "clock (set_conn w c v) = clock w"
  "epoll_reg (set_conn w c v) = epoll_reg w"
  "open_fds (set_conn w c v) = open_fds w"
  by (simp_all add: set_conn_def)

lemma epoll_ctl_frame [simp]:
  "conns (epoll_ctl_del w d) = conns w" "heap (epoll_ctl_del w d) = heap w"
  "nodes (epoll_ctl_del w d) = nodes w" "free_head (epoll_ctl_del w d) = free_head w"
  "clock (epoll_ctl_del w d) = clock w" "th_capacity (epoll_ctl_del w d) = th_capacity w"
  "open_fds (epoll_ctl_del w d) = open_fds w"
  "free_connections_stack (epoll_ctl_del w d) = free_connections_stack w"
  "conns (epoll_ctl_mod w d ev) = conns w" "heap (epoll_ctl_mod w d ev) = heap w"
  "nodes (epoll_ctl_mod w d ev) = nodes w" "free_head (epoll_ctl_mod w d ev) = free_head w"
  "clock (epoll_ctl_mod w d ev) = clock w" "th_capacity (epoll_ctl_mod w d ev) = th_capacity w"
  "open_fds (epoll_ctl_mod w d ev) = open_fds w"
  "free_connections_stack (epoll_ctl_mod w d ev) = free_connections_stack w"
  "conns (epoll_ctl_add w d ev) = conns w" "heap (epoll_ctl_add w d ev) = heap w"
  "nodes (epoll_ctl_add w d ev) = nodes w" "free_head (epoll_ctl_add w d ev) = free_head w"
  "clock (epoll_ctl_add w d ev) = clock w" "th_capacity (epoll_ctl_add w d ev) = th_capacity w"
  "open_fds (epoll_ctl_add w d ev) = open_fds w"
  "free_connections_stack (epoll_ctl_add w d ev) = free_connections_stack w"
  by (simp_all add: epoll_ctl_del_def epoll_ctl_mod_def epoll_ctl_add_def)

lemma close_fd_frame [simp]:
  "conns (close_fd w d) = conns w" "heap (close_fd w d) = heap w"
  "nodes (close_fd w d) = nodes w" "free_head (close_fd w d) = free_head w"
  "clock (close_fd w d) = clock w" "th_capacity (close_fd w d) = th_capacity w"
  "free_connections_stack (close_fd w d) = free_connections_stack w"
  "open_fds (close_fd w d) = open_fds w - {d}"
  by (simp_all add: close_fd_def)

lemma rearm_request_timer_frame [simp]:
  "free_connections_stack (rearm_request_timer w c) = free_connections_stack w"
  "th_capacity (rearm_request_timer w c) = th_capacity w"
  "clock (rearm_request_timer w c) = clock w"
  "epoll_reg (rearm_request_timer w c) = epoll_reg w"
  "open_fds (rearm_request_timer w c) = open_fds w"
  by (simp_all add: rearm_request_timer_def Let_def)

lemma rearm_request_timer_fields [simp]:
  "fd (conns (rearm_request_timer w c) x) = fd (conns w x)"
  "state (conns (rearm_request_timer w c) c) = STATE_READING"
  "x \<noteq> c \<Longrightarrow> state (conns (rearm_request_timer w c) x) = state (conns w x)"
  "parser (conns (rearm_request_timer w c) x) = parser (conns w x)"
  "url (conns (rearm_request_timer w c) x) = url (conns w x)"
  "keep_alive (conns (rearm_request_timer w c) x) = keep_alive (conns w x)"
  "read_buf (conns (rearm_request_timer w c) x) = read_buf (conns w x)"
  "bytes_read (conns (rearm_request_timer w c) x) = bytes_read (conns w x)"
  "response_iov0 (conns (rearm_request_timer w c) x) = response_iov0 (conns w x)"
  "response_iov1 (conns (rearm_request_timer w c) x) = response_iov1 (conns w x)"
  "response_headers (conns (rearm_request_timer w c) x) = response_headers (conns w x)"
  "bytes_sent (conns (rearm_request_timer w c) x) = bytes_sent (conns w x)"
  "last_active (conns (rearm_request_timer w c) x) = last_active (conns w x)"
  by (simp_all add: rearm_request_timer_def Let_def)

lemma timer_heap_remove_timer_node:
  "timer_node (conns (timer_heap_remove w c) c) = None \<or>
   timer_node (conns (timer_heap_remove w c) c) = timer_node (conns w c)"
  by (simp add: timer_heap_remove_def timer_node_pool_release_def upd_conn_def Let_def
      split: option.split)

text \<open>What closing does to the record of the connection, in either worker.\<close>

lemma close_connection_conn:
  assumes "fd (conns w c) \<noteq> -1" "state (conns w c) \<noteq> STATE_FREE"
  shows "conns (close_connection_from_worker w c) c =
           (conns w c)\<lparr>state := STATE_FREE, fd := -1, timer_node := None\<rparr>"
proof -
  have "conns (timer_heap_remove (close_fd (epoll_ctl_del w (fd (conns w c))) (fd (conns w c))) c) c
        = (conns w c)\<lparr>timer_node := timer_node (conns (timer_heap_remove
             (close_fd (epoll_ctl_del w (fd (conns w c))) (fd (conns w c))) c) c)\<rparr>"
    by (subst timer_heap_remove_conns) simp
  then show ?thesis
    using assms by (simp add: close_connection_from_worker_def connection_release_def Let_def)
qed

lemma close_connection_optimized_conn:
  assumes "fd (conns w c) \<noteq> -1" "state (conns w c) \<noteq> STATE_FREE"
  shows "conns (close_connection_from_worker_optimized w c) c =
           (conns w c)\<lparr>state := STATE_FREE, fd := -1, timer_node := None\<rparr>"
proof -
  have "conns (timer_heap_remove (close_fd (epoll_ctl_del w (fd (conns w c))) (fd (conns w c))) c) c
        = (conns w c)\<lparr>timer_node := timer_node (conns (timer_heap_remove
             (close_fd (epoll_ctl_del w (fd (conns w c))) (fd (conns w c))) c) c)\<rparr>"
    by (subst timer_heap_remove_conns) simp
  then show ?thesis
    using assms by (simp add: close_connection_from_worker_optimized_def lockfree_pool_release_def Let_def)
qed

lemma close_connection_open_fds:
  "fd (conns w c) \<noteq> -1 \<Longrightarrow>
   open_fds (close_connection_from_worker w c) = open_fds w - {fd (conns w c)}"
  "fd (conns w c) \<noteq> -1 \<Longrightarrow>
   open_fds (close_connection_from_worker_optimized w c) = open_fds w - {fd (conns w c)}"
  by (simp_all add: close_connection_from_worker_def connection_release_def
      close_connection_from_worker_optimized_def lockfree_pool_release_def Let_def upd_conn_def)

section \<open>The input validator of the optimized worker\<close>

lemma simd_validate_rejects:
  "simd_validate_url_chars data \<Longrightarrow> CR \<notin> set data \<and> LF \<notin> set data \<and> CHR '' '' \<notin> set data"
  by (induction data) (auto split: if_splits)

text \<open>Data that holds the end-of-headers mark never passes the validator.\<close>

lemma header_scan_CR: "header_scan i data = Some k \<Longrightarrow> CR \<in> set data"
  by (induction i data rule: header_scan.induct) (auto split: if_splits)

lemma header_end_fails_validation:
  "simd_find_header_end data \<noteq> None \<Longrightarrow> \<not> simd_validate_url_chars data"
  using header_scan_CR simd_validate_rejects by (fastforce simp: simd_find_header_end_def)

lemma read_loop_optimized_invalid:
  assumes "bytes_read conn < BUFFER_SIZE"
    and "take (BUFFER_SIZE - bytes_read conn) data \<noteq> []"
    and "\<not> simd_validate_url_chars (take (BUFFER_SIZE - bytes_read conn) data)"
  shows "\<exists>buf n rs'. read_loop_optimized a (Recv_data data # rs) conn =
           (Loop_close, conn\<lparr>read_buf := buf, bytes_read := n\<rparr>, rs')"
  using assms
  by (subst read_loop_optimized.simps) (auto simp: Let_def)

text \<open>
  Whenever the first chunk a readable event delivers fails the validator, the optimized
  read path closes the connection: parser and dispatcher are never reached and no
  response is prepared.
\<close>

lemma do_read_optimized_invalid:
  assumes "fd (conns w c) \<noteq> -1"
    and "bytes_read (conns w c) < BUFFER_SIZE"
    and "take (BUFFER_SIZE - bytes_read (conns w c)) data \<noteq> []"
    and "\<not> simd_validate_url_chars (take (BUFFER_SIZE - bytes_read (conns w c)) data)"
  shows "fst (do_read_optimized (Recv_data data # rs) ps w c) = -1"
    and "state (conns (snd (do_read_optimized (Recv_data data # rs) ps w c)) c) = STATE_FREE"
    and "fd (conns (snd (do_read_optimized (Recv_data data # rs) ps w c)) c) = -1"
    and "response_iov0 (conns (snd (do_read_optimized (Recv_data data # rs) ps w c)) c)
           = response_iov0 (conns w c)"
    and "response_iov1 (conns (snd (do_read_optimized (Recv_data data # rs) ps w c)) c)
           = response_iov1 (conns w c)"
    and "open_fds (snd (do_read_optimized (Recv_data data # rs) ps w c))
           = open_fds w - {fd (conns w c)}"
proof -
  define w3 where "w3 = rearm_request_timer w c"
  define c3 where "c3 = conns w3 c"
  have c3: "fd c3 = fd (conns w c)" "bytes_read c3 = bytes_read (conns w c)"
    "state c3 = STATE_READING" "response_iov0 c3 = response_iov0 (conns w c)"
    "response_iov1 c3 = response_iov1 (conns w c)"
    by (simp_all add: c3_def w3_def)
  from read_loop_optimized_invalid [of c3 data 0 rs] assms c3
  obtain buf n rs' where
    loop: "read_loop_optimized 0 (Recv_data data # rs) c3 =
             (Loop_close, c3\<lparr>read_buf := buf, bytes_read := n\<rparr>, rs')"
    by auto
  define w4 where "w4 = set_conn w3 c (c3\<lparr>read_buf := buf, bytes_read := n\<rparr>)"
  have res: "do_read_optimized (Recv_data data # rs) ps w c =
               (-1, close_connection_from_worker_optimized w4 c)"
    using loop by (simp add: do_read_optimized_def Let_def w3_def [symmetric] c3_def [symmetric] w4_def)
  have pre: "fd (conns w4 c) \<noteq> -1" "state (conns w4 c) \<noteq> STATE_FREE"
    using assms(1) c3 by (simp_all add: w4_def)
  have fdw4: "fd (conns w4 c) = fd (conns w c)" "open_fds w4 = open_fds w"
    using c3 by (simp_all add: w4_def w3_def)
  show "fst (do_read_optimized (Recv_data data # rs) ps w c) = -1"
    by (simp add: res)
  show "state (conns (snd (do_read_optimized (Recv_data data # rs) ps w c)) c) = STATE_FREE"
    by (simp add: res close_connection_optimized_conn [OF pre])
  show "fd (conns (snd (do_read_optimized (Recv_data data # rs) ps w c)) c) = -1"
    by (simp add: res close_connection_optimized_conn [OF pre])
  have iov: "response_iov0 (conns w4 c) = response_iov0 (conns w c)"
    "response_iov1 (conns w4 c) = response_iov1 (conns w c)"
    using c3 by (simp_all add: w4_def)
  show "response_iov0 (conns (snd (do_read_optimized (Recv_data data # rs) ps w c)) c)
           = response_iov0 (conns w c)"
    by (simp add: res close_connection_optimized_conn [OF pre] iov)
  show "response_iov1 (conns (snd (do_read_optimized (Recv_data data # rs) ps w c)) c)
           = response_iov1 (conns w c)"
    by (simp add: res close_connection_optimized_conn [OF pre] iov)
  show "open_fds (snd (do_read_optimized (Recv_data data # rs) ps w c))
           = open_fds w - {fd (conns w c)}"
    using close_connection_open_fds(2) [OF pre(1)] by (simp add: res fdw4)
qed

lemma minimal_request_invalid: "\<not> simd_validate_url_chars minimal_request"
  by (simp add: minimal_request_def c_char_val_def)

lemma minimal_request_header_end: "simd_find_header_end minimal_request = Some 23"
  by (simp add: minimal_request_def simd_find_header_end_def CRLF_def CR_def LF_def)

lemma length_minimal_request: "length minimal_request = 27"
  by (simp add: minimal_request_def CRLF_def)

text \<open>
  C2. A connection in state Reading (descriptor 5, empty buffer) receives the minimal
  request \<open>GET / HTTP/1.1\r\nHost: x\r\n\r\n\<close> in one chunk. The request holds its
  end-of-headers mark at offset 23, but the validator of \<open>do_read_optimized\<close> refuses the
  chunk (its fourth byte is a space), so the call returns -1 with the connection closed
  and released, whatever the parser would have reported, and with no response prepared:
  the request is neither parsed nor dispatched.
\<close>

theorem minimal_request_closed_by_validator:
  "state (conns w_reading 0) = STATE_READING
   \<and> simd_find_header_end minimal_request = Some 23
   \<and> \<not> simd_validate_url_chars minimal_request
   \<and> fst (do_read_optimized [Recv_data minimal_request] ps w_reading 0) = -1
   \<and> state (conns (snd (do_read_optimized [Recv_data minimal_request] ps w_reading 0)) 0) = STATE_FREE
   \<and> fd (conns (snd (do_read_optimized [Recv_data minimal_request] ps w_reading 0)) 0) = -1
   \<and> 5 \<notin> open_fds (snd (do_read_optimized [Recv_data minimal_request] ps w_reading 0))
   \<and> iov_len (response_iov0 (conns (snd (do_read_optimized [Recv_data minimal_request] ps w_reading 0)) 0)) = 0
   \<and> iov_len (response_iov1 (conns (snd (do_read_optimized [Recv_data minimal_request] ps w_reading 0)) 0)) = 0"
proof -
  have a: "fd (conns w_reading 0) \<noteq> -1" "bytes_read (conns w_reading 0) < BUFFER_SIZE"
    by (simp_all add: w_reading_def conn0_def BUFFER_SIZE_def)
  have t: "take (BUFFER_SIZE - bytes_read (conns w_reading 0)) minimal_request = minimal_request"
    by (simp add: w_reading_def conn0_def BUFFER_SIZE_def length_minimal_request)
  have b: "take (BUFFER_SIZE - bytes_read (conns w_reading 0)) minimal_request \<noteq> []"
    unfolding t using length_minimal_request by auto
  have c: "\<not> simd_validate_url_chars (take (BUFFER_SIZE - bytes_read (conns w_reading 0)) minimal_request)"
    unfolding t by (rule minimal_request_invalid)
  note r = do_read_optimized_invalid [OF a b c, of "[]" ps]
  show ?thesis
    by (simp add: r minimal_request_invalid minimal_request_header_end)
       (simp add: w_reading_def conn0_def)
qed

theorem minimal_request_closed_by_validator_witness:
  "fst (do_read_optimized [Recv_data minimal_request] minimal_parse w_reading 0) = -1
   \<and> state (conns (snd (do_read_optimized [Recv_data minimal_request] minimal_parse w_reading 0)) 0)
       = STATE_FREE"
  using minimal_request_closed_by_validator [of minimal_parse] by simp

section \<open>Write processing\<close>

lemma writev_le:
  "writev ws lens = (nwritten, err, ws') \<Longrightarrow> 0 \<le> nwritten \<Longrightarrow> nat nwritten \<le> sum_list lens"
  by (cases "(ws, lens)" rule: writev.cases) auto

text \<open>The scatter list handed to \<open>writev\<close> is exactly the unsent suffix.\<close>

lemma write_iov_total:
  "bytes_sent conn < iov_len (response_iov0 conn) + iov_len (response_iov1 conn) \<Longrightarrow>
   bytes_sent conn + sum_list (write_iov conn)
     = iov_len (response_iov0 conn) + iov_len (response_iov1 conn)"
  by (auto simp: write_iov_def Let_def)

lemma write_iov_optimized_total:
  "bytes_sent conn < iov_len (response_iov0 conn) + iov_len (response_iov1 conn) \<Longrightarrow>
   bytes_sent conn + sum_list (write_iov_optimized conn)
     = iov_len (response_iov0 conn) + iov_len (response_iov1 conn)"
  by (auto simp: write_iov_optimized_def Let_def)

text \<open>Every pass of the write loop keeps the bound and leaves the scatter list alone.\<close>

lemma write_loop_bounded:
  "sent_bounded conn \<Longrightarrow>
   sent_bounded (fst (snd (write_loop a ws conn)))
   \<and> response_iov0 (fst (snd (write_loop a ws conn))) = response_iov0 conn
   \<and> response_iov1 (fst (snd (write_loop a ws conn))) = response_iov1 conn"
proof (induction "MAX_WRITE_ATTEMPTS - a" arbitrary: a ws conn)
  case 0
  then show ?case by (subst (1 2 3) write_loop.simps) (auto simp: Let_def)
next
  case (Suc n)
  let ?total = "iov_len (response_iov0 conn) + iov_len (response_iov1 conn)"
  show ?case
  proof (cases "bytes_sent conn < ?total \<and> a < MAX_WRITE_ATTEMPTS")
    case False
    then show ?thesis using Suc.prems by (subst (1 2 3) write_loop.simps) (auto simp: Let_def)
  next
    case True
    obtain nwritten err ws' where wv: "writev ws (write_iov conn) = (nwritten, err, ws')"
      by (cases "writev ws (write_iov conn)") auto
    show ?thesis
    proof (cases "nwritten < 0")
      case neg: True
      then show ?thesis using True wv Suc.prems
        by (subst (1 2 3) write_loop.simps) (auto simp: Let_def)
    next
      case nonneg: False
      let ?c' = "conn\<lparr>bytes_sent := bytes_sent conn + nat nwritten\<rparr>"
      have b: "sent_bounded ?c'"
        using writev_le [OF wv] nonneg write_iov_total [of conn] True
        by (simp add: sent_bounded_def)
      have n: "n = MAX_WRITE_ATTEMPTS - (a + 1)" using Suc.hyps(2) by simp
      have step: "write_loop a ws conn = write_loop (a + 1) ws' ?c'"
        using True wv nonneg by (subst write_loop.simps) (simp add: Let_def)
      show ?thesis using Suc.hyps(1) [OF n b, of ws'] by (simp add: step)
    qed
  qed
qed

lemma write_loop_optimized_bounded:
  "sent_bounded conn \<Longrightarrow>
   sent_bounded (fst (snd (write_loop_optimized a ws conn)))
   \<and> response_iov0 (fst (snd (write_loop_optimized a ws conn))) = response_iov0 conn
   \<and> response_iov1 (fst (snd (write_loop_optimized a ws conn))) = response_iov1 conn"
proof (induction "MAX_WRITE_ATTEMPTS_OPT - a" arbitrary: a ws conn)
  case 0
  then show ?case by (subst (1 2 3) write_loop_optimized.simps) (auto simp: Let_def)
next
  case (Suc n)
  let ?total = "iov_len (response_iov0 conn) + iov_len (response_iov1 conn)"
  show ?case
  proof (cases "bytes_sent conn < ?total \<and> a < MAX_WRITE_ATTEMPTS_OPT")
    case False
    then show ?thesis using Suc.prems
      by (subst (1 2 3) write_loop_optimized.simps) (auto simp: Let_def)
  next
    case True
    obtain nwritten err ws' where wv: "writev ws (write_iov_optimized conn) = (nwritten, err, ws')"
      by (cases "writev ws (write_iov_optimized conn)") auto
    show ?thesis
    proof (cases "nwritten < 0")
      case neg: True
      then show ?thesis using True wv Suc.prems
        by (subst (1 2 3) write_loop_optimized.simps) (auto simp: Let_def)
    next
      case nonneg: False
      let ?c' = "conn\<lparr>bytes_sent := bytes_sent conn + nat nwritten\<rparr>"
      have b: "sent_bounded ?c'"
        using writev_le [OF wv] nonneg write_iov_optimized_total [of conn] True
        by (simp add: sent_bounded_def)
      have n: "n = MAX_WRITE_ATTEMPTS_OPT - (a + 1)" using Suc.hyps(2) by simp
      have step: "write_loop_optimized a ws conn = write_loop_optimized (a + 1) ws' ?c'"
        using True wv nonneg by (subst write_loop_optimized.simps) (simp add: Let_def)
      show ?thesis using Suc.hyps(1) [OF n b, of ws'] by (simp add: step)
    qed
  qed
qed

lemma sent_bounded_timer [simp]:
  "sent_bounded (conns (timer_heap_remove w c) x) = sent_bounded (conns w x)"
  "sent_bounded (conns (snd (timer_heap_add w c t)) x) = sent_bounded (conns w x)"
  by (simp_all add: sent_bounded_def)

lemma sent_bounded_close:
  "sent_bounded (conns (close_connection_from_worker w c) x) = sent_bounded (conns w x)"
  "sent_bounded (conns (close_connection_from_worker_optimized w c) x) = sent_bounded (conns w x)"
  by (simp_all add: close_connection_from_worker_def connection_release_def
      close_connection_from_worker_optimized_def lockfree_pool_release_def Let_def)
     (simp_all add: sent_bounded_def)

lemma handle_request_bounded:
  "bytes_sent (handle_request_and_prepare_response conn) = 0"
  "sent_bounded (handle_request_and_prepare_response conn)"
  by (simp_all add: handle_request_and_prepare_response_def sent_bounded_def Let_def
      split: prod.split)

lemma do_write_bounded:
  assumes "sent_bounded (conns w x)"
  shows "sent_bounded (conns (do_write ws w c) x)"
proof -
  obtain e c' r where wl: "write_loop 0 ws (conns w c) = (e, c', r)"
    by (cases "write_loop 0 ws (conns w c)") auto
  have b: "x = c \<Longrightarrow> sent_bounded c'"
    using write_loop_bounded [of "conns w c" 0 ws] assms wl by simp
  have r: "sent_bounded (c'\<lparr>state := STATE_KEEP_ALIVE, parser := http_parser_init,
             bytes_read := 0, read_buf := [], bytes_sent := 0, url := []\<rparr>)"
    by (simp add: sent_bounded_def)
  show ?thesis
    unfolding do_write_def Let_def wl
    using assms b r by (cases e) (simp_all add: sent_bounded_close)
qed

lemma do_write_optimized_bounded:
  assumes "sent_bounded (conns w x)"
  shows "sent_bounded (conns (snd (do_write_optimized ws w c)) x)"
proof -
  obtain e c' r where wl: "write_loop_optimized 0 ws (conns w c) = (e, c', r)"
    by (cases "write_loop_optimized 0 ws (conns w c)") auto
  have b: "x = c \<Longrightarrow> sent_bounded c'"
    using write_loop_optimized_bounded [of "conns w c" 0 ws] assms wl by simp
  have r: "sent_bounded (c'\<lparr>state := STATE_KEEP_ALIVE, parser := http_parser_init,
             bytes_read := 0, read_buf := [], bytes_sent := 0, url := []\<rparr>)"
    by (simp add: sent_bounded_def)
  show ?thesis
    unfolding do_write_optimized_def Let_def wl
    using assms b r by (cases e) (simp_all add: sent_bounded_close)
qed

text \<open>
  C7. The dispatcher leaves \<open>bytes_sent = 0\<close>, within the bound. From any state in
  which a connection \<open>x\<close> is within the bound, a call of \<open>do_write\<close> or of
  \<open>do_write_optimized\<close> on any connection, for any sequence of \<open>writev\<close> results
  (partial writes, \<open>EAGAIN\<close>, errors), leaves \<open>x\<close> within the bound, and so does the
  write loop itself from any pass on. A resumption after \<open>EAGAIN\<close> is such a call from
  the state the suspended call left.
\<close>

theorem bytes_sent_within_segments:
  assumes "sent_bounded (conns w x)"
  shows "bytes_sent (handle_request_and_prepare_response conn) = 0
       \<and> sent_bounded (handle_request_and_prepare_response conn)
       \<and> sent_bounded (conns (do_write ws w c) x)
       \<and> sent_bounded (conns (snd (do_write_optimized ws w c)) x)
       \<and> sent_bounded (fst (snd (write_loop a ws (conns w x))))
       \<and> sent_bounded (fst (snd (write_loop_optimized a ws (conns w x))))"
  using assms
  by (simp add: handle_request_bounded do_write_bounded do_write_optimized_bounded
      write_loop_bounded write_loop_optimized_bounded)

theorem bytes_sent_within_segments_witness:
  "sent_bounded (conns w_writing 0)
   \<and> sent_bounded (conns (do_write [Wv_bytes 100, Wv_eagain] w_writing 0) 0)
   \<and> sent_bounded (conns (snd (do_write_optimized [Wv_bytes 100, Wv_eagain] w_writing 0)) 0)"
proof -
  have h: "sent_bounded (conns w_writing 0)"
    by (simp add: w_writing_def handle_request_bounded)
  show ?thesis
    using bytes_sent_within_segments [OF h, of conn0 "[Wv_bytes 100, Wv_eagain]" 0 0] h by simp
qed

section \<open>Read processing\<close>

lemma recv_bounds:
  "recv rs n = (nread, err, data, rs') \<Longrightarrow>
   nread \<le> int n \<and> (0 < nread \<longrightarrow> nat nread = length data \<and> data \<noteq> [])"
  by (cases "(rs, n)" rule: recv.cases) auto

text \<open>
  The callbacks change the stored target and the keep-alive flag and nothing else; in
  particular a connection that enters the parser in \<open>STATE_READING\<close> leaves it in
  \<open>STATE_READING\<close>.
\<close>

lemma on_url_callback_shape:
  "\<exists>u. snd (on_url_callback conn t rest) = conn\<lparr>url := u\<rparr>"
proof (cases "snd (on_url_callback conn t rest) = conn")
  case True
  then show ?thesis by (intro exI [of _ "url conn"]) simp
next
  case False
  then show ?thesis by (auto simp: on_url_callback_def Let_def split: if_splits)
qed

lemma on_headers_complete_callback_shape:
  "\<exists>k. snd (on_headers_complete_callback conn cl nr ka) = conn\<lparr>keep_alive := k\<rparr>"
proof (cases "snd (on_headers_complete_callback conn cl nr ka) = conn")
  case True
  then show ?thesis by (intro exI [of _ "keep_alive conn"]) simp
next
  case False
  then show ?thesis by (auto simp: on_headers_complete_callback_def split: if_splits)
qed

lemma run_callbacks_shape:
  "\<exists>u k. snd (run_callbacks es data conn) = conn\<lparr>url := u, keep_alive := k\<rparr>"
proof (induction es arbitrary: conn)
  case Nil
  show ?case by (intro exI [of _ "url conn"] exI [of _ "keep_alive conn"]) simp
next
  case (Cons e es)
  show ?case
  proof (cases e)
    case (On_url off len)
    obtain r c1 where cb: "on_url_callback conn (take len (drop off data)) (drop (off + len) data) = (r, c1)"
      by (cases "on_url_callback conn (take len (drop off data)) (drop (off + len) data)") auto
    from on_url_callback_shape [of conn "take len (drop off data)" "drop (off + len) data"] cb
    obtain u where c1: "c1 = conn\<lparr>url := u\<rparr>" by auto
    from Cons.IH [of c1] obtain u' k' where
      ih: "snd (run_callbacks es data c1) = c1\<lparr>url := u', keep_alive := k'\<rparr>" by blast
    show ?thesis
    proof (cases "r \<noteq> 0")
      case True
      then have "snd (run_callbacks (e # es) data conn) = conn\<lparr>url := u, keep_alive := keep_alive conn\<rparr>"
        using cb c1 On_url by simp
      then show ?thesis by blast
    next
      case False
      then have "snd (run_callbacks (e # es) data conn) = conn\<lparr>url := u', keep_alive := k'\<rparr>"
        using cb c1 On_url ih by simp
      then show ?thesis by blast
    qed
  next
    case (On_headers_complete cl nr ka)
    obtain r c1 where cb: "on_headers_complete_callback conn cl nr ka = (r, c1)"
      by (cases "on_headers_complete_callback conn cl nr ka") auto
    from on_headers_complete_callback_shape [of conn cl nr ka] cb
    obtain k where c1: "c1 = conn\<lparr>keep_alive := k\<rparr>" by auto
    from Cons.IH [of c1] obtain u' k' where
      ih: "snd (run_callbacks es data c1) = c1\<lparr>url := u', keep_alive := k'\<rparr>" by blast
    show ?thesis
    proof (cases "r \<noteq> 0 \<and> r \<noteq> 1 \<and> r \<noteq> 2")
      case True
      then have "snd (run_callbacks (e # es) data conn) = conn\<lparr>url := url conn, keep_alive := k\<rparr>"
        using cb c1 On_headers_complete by simp
      then show ?thesis by blast
    next
      case False
      then have "snd (run_callbacks (e # es) data conn) = conn\<lparr>url := u', keep_alive := k'\<rparr>"
        using cb c1 On_headers_complete ih by auto
      then show ?thesis by blast
    qed
  qed
qed

lemma http_parser_execute_shape:
  "\<exists>u k p. snd (http_parser_execute ps conn data) = conn\<lparr>url := u, keep_alive := k, parser := p\<rparr>"
proof -
  obtain e c1 where rc: "run_callbacks (ps_events ps) data conn = (e, c1)"
    by (cases "run_callbacks (ps_events ps) data conn") auto
  from run_callbacks_shape [of "ps_events ps" data conn] rc
  obtain u k where "c1 = conn\<lparr>url := u, keep_alive := k\<rparr>" by auto
  then have "snd (http_parser_execute ps conn data) =
      conn\<lparr>url := u, keep_alive := k,
           parser := \<lparr>http_errno = (if e = HPE_OK then ps_errno ps else e),
                      http_major = ps_major ps, http_minor = ps_minor ps,
                      upgrade = ps_upgrade ps, http_method = ps_method ps\<rparr>\<rparr>"
    using rc by (simp add: http_parser_execute_def)
  then show ?thesis by blast
qed

lemma http_parser_execute_fields [simp]:
  "fd (snd (http_parser_execute ps conn data)) = fd conn"
  "state (snd (http_parser_execute ps conn data)) = state conn"
  "bytes_read (snd (http_parser_execute ps conn data)) = bytes_read conn"
  "read_buf (snd (http_parser_execute ps conn data)) = read_buf conn"
  "response_iov0 (snd (http_parser_execute ps conn data)) = response_iov0 conn"
  "response_iov1 (snd (http_parser_execute ps conn data)) = response_iov1 conn"
  "bytes_sent (snd (http_parser_execute ps conn data)) = bytes_sent conn"
  "timer_node (snd (http_parser_execute ps conn data)) = timer_node conn"
  using http_parser_execute_shape [of ps conn data] by auto

text \<open>
  The read loop only appends received bytes to the buffer, and never holds more than
  \<open>BUFFER_SIZE\<close> of them.
\<close>

lemma read_loop_shape:
  "\<exists>data. fst (snd (read_loop a rs conn)) =
            conn\<lparr>read_buf := read_buf conn @ data, bytes_read := bytes_read conn + length data\<rparr>
        \<and> (bytes_read conn \<le> BUFFER_SIZE \<longrightarrow> bytes_read conn + length data \<le> BUFFER_SIZE)"
proof (induction "MAX_READ_ATTEMPTS + 1 - a" arbitrary: a rs conn)
  case 0
  then have a: "MAX_READ_ATTEMPTS < a + 1" by simp
  show ?case
  proof (cases "BUFFER_SIZE - bytes_read conn = 0")
    case True
    then have "read_loop a rs conn = (Loop_close, conn, rs)"
      by (subst read_loop.simps) simp
    then show ?thesis by (intro exI [of _ "[]"]) simp
  next
    case False
    obtain nread err d rs' where rc: "recv rs (BUFFER_SIZE - bytes_read conn) = (nread, err, d, rs')"
      by (cases "recv rs (BUFFER_SIZE - bytes_read conn)") auto
    note rb = recv_bounds [OF rc]
    show ?thesis
    proof (cases "0 < nread")
      case True
      then have "fst (snd (read_loop a rs conn)) =
          conn\<lparr>read_buf := read_buf conn @ d, bytes_read := bytes_read conn + length d\<rparr>"
        using False rc rb a by (subst read_loop.simps) (simp add: Let_def)
      moreover have "bytes_read conn \<le> BUFFER_SIZE \<longrightarrow> bytes_read conn + length d \<le> BUFFER_SIZE"
        using rb True by auto
      ultimately show ?thesis by blast
    next
      case neg: False
      then have "fst (snd (read_loop a rs conn)) = conn"
        using False rc a by (subst read_loop.simps) (simp add: Let_def)
      then show ?thesis by (intro exI [of _ "[]"]) simp
    qed
  qed
next
  case (Suc n)
  show ?case
  proof (cases "BUFFER_SIZE - bytes_read conn = 0")
    case True
    then have "read_loop a rs conn = (Loop_close, conn, rs)"
      by (subst read_loop.simps) simp
    then show ?thesis by (intro exI [of _ "[]"]) simp
  next
    case False
    obtain nread err d rs' where rc: "recv rs (BUFFER_SIZE - bytes_read conn) = (nread, err, d, rs')"
      by (cases "recv rs (BUFFER_SIZE - bytes_read conn)") auto
    note rb = recv_bounds [OF rc]
    show ?thesis
    proof (cases "0 < nread")
      case neg: False
      then have "fst (snd (read_loop a rs conn)) = conn"
        using False rc by (subst read_loop.simps) (simp add: Let_def)
      then show ?thesis by (intro exI [of _ "[]"]) simp
    next
      case True
      define conn1 where
        "conn1 = conn\<lparr>read_buf := read_buf conn @ d, bytes_read := bytes_read conn + length d\<rparr>"
      have le1: "bytes_read conn \<le> BUFFER_SIZE \<longrightarrow> bytes_read conn1 \<le> BUFFER_SIZE"
        using rb True by (auto simp: conn1_def)
      have "fst (snd (read_loop a rs conn)) = conn1
            \<or> (\<not> MAX_READ_ATTEMPTS < a + 1
                \<and> fst (snd (read_loop a rs conn)) = fst (snd (read_loop (a + 1) rs' conn1)))"
        using False rc rb True
        by (subst (1 2) read_loop.simps) (simp add: Let_def conn1_def)
      then show ?thesis
      proof
        assume "fst (snd (read_loop a rs conn)) = conn1"
        then show ?thesis using le1 by (intro exI [of _ d]) (simp add: conn1_def)
      next
        assume r: "\<not> MAX_READ_ATTEMPTS < a + 1
                \<and> fst (snd (read_loop a rs conn)) = fst (snd (read_loop (a + 1) rs' conn1))"
        then have n: "n = MAX_READ_ATTEMPTS + 1 - (a + 1)" using Suc.hyps(2) by simp
        from Suc.hyps(1) [OF n, of rs' conn1] obtain d2 where
          d2: "fst (snd (read_loop (a + 1) rs' conn1)) =
                 conn1\<lparr>read_buf := read_buf conn1 @ d2, bytes_read := bytes_read conn1 + length d2\<rparr>"
              "bytes_read conn1 \<le> BUFFER_SIZE \<longrightarrow> bytes_read conn1 + length d2 \<le> BUFFER_SIZE"
          by blast
        show ?thesis
          using r d2 le1 by (intro exI [of _ "d @ d2"]) (auto simp: conn1_def)
      qed
    qed
  qed
qed

lemma read_loop_fields [simp]:
  "fd (fst (snd (read_loop a rs conn))) = fd conn"
  "state (fst (snd (read_loop a rs conn))) = state conn"
  "parser (fst (snd (read_loop a rs conn))) = parser conn"
  "url (fst (snd (read_loop a rs conn))) = url conn"
  "keep_alive (fst (snd (read_loop a rs conn))) = keep_alive conn"
  "response_iov0 (fst (snd (read_loop a rs conn))) = response_iov0 conn"
  "response_iov1 (fst (snd (read_loop a rs conn))) = response_iov1 conn"
  "bytes_sent (fst (snd (read_loop a rs conn))) = bytes_sent conn"
  "timer_node (fst (snd (read_loop a rs conn))) = timer_node conn"
  using read_loop_shape [of a rs conn] by auto

lemma read_loop_bytes_read:
  "bytes_read conn \<le> BUFFER_SIZE \<Longrightarrow> bytes_read (fst (snd (read_loop a rs conn))) \<le> BUFFER_SIZE"
  using read_loop_shape [of a rs conn] by auto

lemma read_loop_full:
  "bytes_read conn = BUFFER_SIZE \<Longrightarrow> read_loop a rs conn = (Loop_close, conn, rs)"
  by (subst read_loop.simps) simp

lemma write_loop_shape:
  "\<exists>n. fst (snd (write_loop a ws conn)) = conn\<lparr>bytes_sent := n\<rparr>"
proof (induction "MAX_WRITE_ATTEMPTS - a" arbitrary: a ws conn)
  case 0
  then have "fst (snd (write_loop a ws conn)) = conn"
    by (subst write_loop.simps) (simp add: Let_def)
  then show ?case by (intro exI [of _ "bytes_sent conn"]) simp
next
  case (Suc n)
  obtain nwritten err ws' where wv: "writev ws (write_iov conn) = (nwritten, err, ws')"
    by (cases "writev ws (write_iov conn)") auto
  let ?c' = "conn\<lparr>bytes_sent := bytes_sent conn + nat nwritten\<rparr>"
  have "fst (snd (write_loop a ws conn)) = conn
        \<or> (a < MAX_WRITE_ATTEMPTS
            \<and> fst (snd (write_loop a ws conn)) = fst (snd (write_loop (a + 1) ws' ?c')))"
    using wv by (subst (1 2) write_loop.simps) (simp add: Let_def)
  then show ?case
  proof
    assume "fst (snd (write_loop a ws conn)) = conn"
    then show ?thesis by (intro exI [of _ "bytes_sent conn"]) simp
  next
    assume r: "a < MAX_WRITE_ATTEMPTS
            \<and> fst (snd (write_loop a ws conn)) = fst (snd (write_loop (a + 1) ws' ?c'))"
    then have n: "n = MAX_WRITE_ATTEMPTS - (a + 1)" using Suc.hyps(2) by simp
    from Suc.hyps(1) [OF n, of ws' ?c'] obtain m where
      "fst (snd (write_loop (a + 1) ws' ?c')) = ?c'\<lparr>bytes_sent := m\<rparr>" by blast
    then show ?thesis using r by (intro exI [of _ m]) simp
  qed
qed

text \<open>Closing changes the state, the descriptor and the timer handle of a record only.\<close>

lemma close_connection_shape:
  "\<exists>s f t. conns (close_connection_from_worker w c) x =
             (conns w x)\<lparr>state := s, fd := f, timer_node := t\<rparr>"
proof (cases "conns (close_connection_from_worker w c) x = conns w x")
  case True
  then show ?thesis
    by (intro exI [of _ "state (conns w x)"] exI [of _ "fd (conns w x)"]
        exI [of _ "timer_node (conns w x)"]) simp
next
  case False
  let ?w2 = "close_fd (epoll_ctl_del w (fd (conns w c))) (fd (conns w c))"
  have r: "conns (timer_heap_remove ?w2 c) x
        = (conns w x)\<lparr>timer_node := timer_node (conns (timer_heap_remove ?w2 c) x)\<rparr>"
    by (subst timer_heap_remove_conns) simp
  from False have "conns (close_connection_from_worker w c) x =
      (conns w x)\<lparr>state := state (conns (close_connection_from_worker w c) x),
                  fd := fd (conns (close_connection_from_worker w c) x),
                  timer_node := timer_node (conns (close_connection_from_worker w c) x)\<rparr>"
    using r
    by (auto simp: close_connection_from_worker_def connection_release_def Let_def
        split: if_splits)
  then show ?thesis by blast
qed

lemma close_connection_fields [simp]:
  "parser (conns (close_connection_from_worker w c) x) = parser (conns w x)"
  "url (conns (close_connection_from_worker w c) x) = url (conns w x)"
  "keep_alive (conns (close_connection_from_worker w c) x) = keep_alive (conns w x)"
  "read_buf (conns (close_connection_from_worker w c) x) = read_buf (conns w x)"
  "bytes_read (conns (close_connection_from_worker w c) x) = bytes_read (conns w x)"
  "response_iov0 (conns (close_connection_from_worker w c) x) = response_iov0 (conns w x)"
  "response_iov1 (conns (close_connection_from_worker w c) x) = response_iov1 (conns w x)"
  "response_headers (conns (close_connection_from_worker w c) x) = response_headers (conns w x)"
  "bytes_sent (conns (close_connection_from_worker w c) x) = bytes_sent (conns w x)"
  using close_connection_shape [of w c x] by auto

lemma handle_request_fields [simp]:
  "fd (handle_request_and_prepare_response conn) = fd conn"
  "bytes_read (handle_request_and_prepare_response conn) = bytes_read conn"
  "read_buf (handle_request_and_prepare_response conn) = read_buf conn"
  "timer_node (handle_request_and_prepare_response conn) = timer_node conn"
  "state (handle_request_and_prepare_response conn) = STATE_WRITING"
  by (simp_all add: handle_request_and_prepare_response_def Let_def split: prod.split)

lemma do_write_bytes_read:
  "bytes_read (conns (do_write ws w c) x) \<le> bytes_read (conns w x)"
proof -
  obtain e c' r where wl: "write_loop 0 ws (conns w c) = (e, c', r)"
    by (cases "write_loop 0 ws (conns w c)") auto
  from write_loop_shape [of 0 ws "conns w c"] wl
  obtain n where c': "c' = (conns w c)\<lparr>bytes_sent := n\<rparr>" by auto
  show ?thesis
    unfolding do_write_def Let_def wl
    by (cases e) (simp_all add: c')
qed

lemma do_read_parse_bytes_read:
  assumes "bytes_read (conns w c) \<le> BUFFER_SIZE"
  shows "bytes_read (conns (do_read_parse ps ws w c) c) \<le> BUFFER_SIZE"
proof -
  obtain parsed c'' where pe: "http_parser_execute ps (conns w c) (read_buf (conns w c)) = (parsed, c'')"
    by (cases "http_parser_execute ps (conns w c) (read_buf (conns w c))") auto
  have b'': "bytes_read c'' \<le> BUFFER_SIZE"
    using http_parser_execute_fields(3) [of ps "conns w c" "read_buf (conns w c)"] pe assms by simp
  have d: "bytes_read (conns (do_read_dispatch ws (set_conn w c c'') c) c) \<le> BUFFER_SIZE"
    using do_write_bytes_read
            [of ws "upd_conn (timer_heap_remove (set_conn w c c'') c) c
                      handle_request_and_prepare_response" c c] b''
    by (simp add: do_read_dispatch_def Let_def)
  show ?thesis
    unfolding do_read_parse_def Let_def pe
    using b'' d by simp
qed

text \<open>\<open>do_read\<close> never leaves more than \<open>BUFFER_SIZE\<close> bytes in the buffer.\<close>

lemma do_read_bytes_read:
  assumes "bytes_read (conns w c) \<le> BUFFER_SIZE"
  shows "bytes_read (conns (do_read rs ps ws w c) c) \<le> BUFFER_SIZE"
proof -
  define w3 where "w3 = rearm_request_timer w c"
  have b3: "bytes_read (conns w3 c) \<le> BUFFER_SIZE"
    using assms by (simp add: w3_def)
  obtain ex c' rs' where rl: "read_loop 0 rs (conns w3 c) = (ex, c', rs')"
    by (cases "read_loop 0 rs (conns w3 c)") auto
  have b': "bytes_read c' \<le> BUFFER_SIZE"
    using read_loop_bytes_read [OF b3, of 0 rs] rl by simp
  have p: "bytes_read (conns (do_read_parse ps ws (set_conn w3 c c') c) c) \<le> BUFFER_SIZE"
    using b' by (intro do_read_parse_bytes_read) simp
  show ?thesis
    unfolding do_read_def Let_def w3_def [symmetric] rl
    using b' p by (cases ex) simp_all
qed

text \<open>A readable event that finds the buffer full closes the connection.\<close>

lemma do_read_full_closes:
  assumes "bytes_read (conns w c) = BUFFER_SIZE" "fd (conns w c) \<noteq> -1"
  shows "state (conns (do_read rs ps ws w c) c) = STATE_FREE"
    and "fd (conns (do_read rs ps ws w c) c) = -1"
    and "open_fds (do_read rs ps ws w c) = open_fds w - {fd (conns w c)}"
proof -
  define w3 where "w3 = rearm_request_timer w c"
  have c3: "bytes_read (conns w3 c) = BUFFER_SIZE" "fd (conns w3 c) = fd (conns w c)"
    "state (conns w3 c) = STATE_READING" "open_fds w3 = open_fds w"
    using assms by (simp_all add: w3_def)
  have w3': "set_conn w3 c (conns w3 c) = w3"
    by (simp add: set_conn_def)
  have res: "do_read rs ps ws w c = close_connection_from_worker w3 c"
    unfolding do_read_def Let_def w3_def [symmetric]
    by (simp add: read_loop_full [OF c3(1)] w3')
  have pre: "fd (conns w3 c) \<noteq> -1" "state (conns w3 c) \<noteq> STATE_FREE"
    using c3 assms by simp_all
  show "state (conns (do_read rs ps ws w c) c) = STATE_FREE"
    by (simp add: res close_connection_conn [OF pre])
  show "fd (conns (do_read rs ps ws w c) c) = -1"
    by (simp add: res close_connection_conn [OF pre])
  show "open_fds (do_read rs ps ws w c) = open_fds w - {fd (conns w c)}"
    using close_connection_open_fds(1) [OF pre(1)] c3 by (simp add: res)
qed

subsection \<open>One chunk per readable event\<close>

lemma read_loop_single_chunk:
  assumes "data \<noteq> []" "bytes_read conn + length data < BUFFER_SIZE"
    and "bytes_read conn + length data \<le> 1024"
  shows "read_loop 0 [Recv_data data] conn =
           (Loop_done (-1) EAGAIN,
            conn\<lparr>read_buf := read_buf conn @ data, bytes_read := bytes_read conn + length data\<rparr>,
            [])"
  using assms
  by (subst read_loop.simps, subst read_loop.simps)
     (simp add: Let_def MAX_REQUEST_SIZE_def MAX_READ_ATTEMPTS_def)

lemma read_loop_fill:
  assumes "bytes_read conn < BUFFER_SIZE" "length data \<ge> BUFFER_SIZE - bytes_read conn"
    and "\<not> too_many_repeats (read_buf conn @ take (BUFFER_SIZE - bytes_read conn) data)"
  shows "read_loop 0 (Recv_data data # rs) conn =
           (Loop_done (int (BUFFER_SIZE - bytes_read conn)) E_NONE,
            conn\<lparr>read_buf := read_buf conn @ take (BUFFER_SIZE - bytes_read conn) data,
                 bytes_read := BUFFER_SIZE\<rparr>,
            if drop (BUFFER_SIZE - bytes_read conn) data = [] then rs
            else Recv_data (drop (BUFFER_SIZE - bytes_read conn) data) # rs)"
proof -
  define sp where "sp = BUFFER_SIZE - bytes_read conn"
  have sp: "0 < sp" "bytes_read conn + sp = BUFFER_SIZE" "length (take sp data) = sp"
    using assms(1,2) by (auto simp: sp_def)
  have rc: "recv (Recv_data data # rs) sp =
      (int sp, E_NONE, take sp data, if drop sp data = [] then rs else Recv_data (drop sp data) # rs)"
    using sp(3) by simp
  have neq: "sp \<noteq> 0" using sp(1) by simp
  show ?thesis
    unfolding sp_def [symmetric]
    apply (subst read_loop.simps)
    apply (simp only: sp_def [symmetric] Let_def rc prod.case neq if_False)
    using sp assms(3) [unfolded sp_def [symmetric]]
    apply (simp add: MAX_REQUEST_SIZE_def BUFFER_SIZE_def MAX_READ_ATTEMPTS_def)
    done
qed

lemma run_callbacks_not_paused:
  "fst (run_callbacks es data conn) \<noteq> HPE_PAUSED"
  by (induction es data conn rule: run_callbacks.induct) (auto split: prod.split)

text \<open>
  Bytes that the parser leaves unconsumed: \<open>do_read\<close> closes the connection, through its
  first check if a callback or the parser reported an error, through its second one
  otherwise.
\<close>

lemma do_read_parse_unparsed:
  assumes "ps_parsed ps \<noteq> bytes_read (conns w c)" "ps_errno ps \<noteq> HPE_PAUSED"
  shows "do_read_parse ps ws w c =
           close_connection_from_worker
             (set_conn w c (snd (http_parser_execute ps (conns w c) (read_buf (conns w c))))) c"
proof -
  obtain e c1 where rc: "run_callbacks (ps_events ps) (read_buf (conns w c)) (conns w c) = (e, c1)"
    by (cases "run_callbacks (ps_events ps) (read_buf (conns w c)) (conns w c)") auto
  have e: "e \<noteq> HPE_PAUSED"
    using run_callbacks_not_paused [of "ps_events ps" "read_buf (conns w c)" "conns w c"] rc by simp
  have br: "bytes_read c1 = bytes_read (conns w c)"
    using run_callbacks_shape [of "ps_events ps" "read_buf (conns w c)" "conns w c"] rc by auto
  show ?thesis
    using assms e br
    by (simp add: do_read_parse_def http_parser_execute_def rc Let_def)
qed

text \<open>
  A parse without complaint on a buffer below the size limit: the connection is still in
  \<open>STATE_READING\<close> (no callback changes the state), so \<open>do_read\<close> re-arms read
  readiness and returns.
\<close>

lemma do_read_parse_rearm:
  assumes "state (conns w c) = STATE_READING"
    and "fst (run_callbacks (ps_events ps) (read_buf (conns w c)) (conns w c)) = HPE_OK"
    and "ps_errno ps = HPE_OK" "ps_parsed ps = bytes_read (conns w c)"
    and "ps_major ps = 1" "ps_minor ps = 0 \<or> ps_minor ps = 1" "\<not> ps_upgrade ps"
    and "bytes_read (conns w c) < MAX_REQUEST_SIZE"
  shows "do_read_parse ps ws w c =
           epoll_ctl_mod
             (set_conn w c (snd (http_parser_execute ps (conns w c) (read_buf (conns w c)))))
             (fd (conns w c))
             \<lparr>events = [EPOLLIN, EPOLLET, EPOLLONESHOT], data_ptr = c\<rparr>"
proof -
  obtain e c1 where rc: "run_callbacks (ps_events ps) (read_buf (conns w c)) (conns w c) = (e, c1)"
    by (cases "run_callbacks (ps_events ps) (read_buf (conns w c)) (conns w c)") auto
  from run_callbacks_shape [of "ps_events ps" "read_buf (conns w c)" "conns w c"] rc
  obtain u k where c1: "c1 = (conns w c)\<lparr>url := u, keep_alive := k\<rparr>" by auto
  show ?thesis
    using assms rc
    by (auto simp: do_read_parse_def http_parser_execute_def Let_def c1)
qed

section \<open>The size ceiling of the read path and trailing bytes\<close>

lemma length_req8192: "length req8192 = 8192"
  by (simp add: req8192_def CRLF_def length_concat sum_list_replicate)

lemma req8192_ends_headers: "drop 8188 req8192 = CRLF @ CRLF"
  by (simp add: req8192_def CRLF_def length_concat sum_list_replicate)

lemma w_full_facts:
  "bytes_read (conns w_full 0) = BUFFER_SIZE" "fd (conns w_full 0) = 5"
  "state (conns w_full 0) = STATE_READING" "open_fds w_full = {5}"
  "read_buf (conns w_full 0) = take 4096 req8192"
  by (simp_all add: w_full_def w_reading_def conn0_def BUFFER_SIZE_def)

text \<open>
  C1, as stated, fails. The connection has read the first 4096 bytes of a header block
  of exactly 8192 bytes that ends in \<open>\r\n\r\n\<close>; the other 4096 bytes are waiting in
  the socket. The next readable event finds no space left in the buffer and closes the
  connection.
\<close>

theorem header_block_of_8192_is_closed:
  "length req8192 = 8192
   \<and> drop 8188 req8192 = CRLF @ CRLF
   \<and> read_buf (conns w_full 0) = take 4096 req8192
   \<and> state (conns w_full 0) = STATE_READING
   \<and> state (conns (do_read [Recv_data (drop 4096 req8192)] incomplete_parse [] w_full 0) 0) = STATE_FREE
   \<and> fd (conns (do_read [Recv_data (drop 4096 req8192)] incomplete_parse [] w_full 0) 0) = -1
   \<and> open_fds (do_read [Recv_data (drop 4096 req8192)] incomplete_parse [] w_full 0) = {}"
proof -
  have fd: "fd (conns w_full 0) \<noteq> -1" by (simp add: w_full_facts)
  note r = do_read_full_closes [OF w_full_facts(1) fd,
      of "[Recv_data (drop 4096 req8192)]" incomplete_parse "[]"]
  show ?thesis
    by (simp add: r length_req8192 req8192_ends_headers w_full_facts)
qed

lemma read_loop_optimized_full:
  "bytes_read conn = BUFFER_SIZE \<Longrightarrow> read_loop_optimized a rs conn = (Loop_close, conn, rs)"
  by (subst read_loop_optimized.simps) simp

lemma do_read_optimized_full_closes:
  assumes "bytes_read (conns w c) = BUFFER_SIZE" "fd (conns w c) \<noteq> -1"
  shows "fst (do_read_optimized rs ps w c) = -1"
    and "state (conns (snd (do_read_optimized rs ps w c)) c) = STATE_FREE"
    and "fd (conns (snd (do_read_optimized rs ps w c)) c) = -1"
proof -
  define w3 where "w3 = rearm_request_timer w c"
  have c3: "bytes_read (conns w3 c) = BUFFER_SIZE" "fd (conns w3 c) = fd (conns w c)"
    "state (conns w3 c) = STATE_READING"
    using assms by (simp_all add: w3_def)
  have w3': "set_conn w3 c (conns w3 c) = w3"
    by (simp add: set_conn_def)
  have res: "do_read_optimized rs ps w c = (-1, close_connection_from_worker_optimized w3 c)"
    unfolding do_read_optimized_def Let_def w3_def [symmetric]
    by (simp add: read_loop_optimized_full [OF c3(1)] w3')
  have pre: "fd (conns w3 c) \<noteq> -1" "state (conns w3 c) \<noteq> STATE_FREE"
    using c3 assms by simp_all
  show "fst (do_read_optimized rs ps w c) = -1" by (simp add: res)
  show "state (conns (snd (do_read_optimized rs ps w c)) c) = STATE_FREE"
    by (simp add: res close_connection_optimized_conn [OF pre])
  show "fd (conns (snd (do_read_optimized rs ps w c)) c) = -1"
    by (simp add: res close_connection_optimized_conn [OF pre])
qed

text \<open>
  C1, amended. The ceiling of the read path is the 4096-byte buffer: \<open>do_read\<close> never
  leaves more than \<open>BUFFER_SIZE\<close> bytes in it, so the test against
  \<open>MAX_REQUEST_SIZE\<close> = 8192 cannot fire; a chunk that fills the buffer exactly is read
  whole and leaves the loop for the parser; and a readable event that finds the buffer
  full closes the connection, in either worker.
\<close>

theorem read_ceiling_is_buffer_size:
  assumes "bytes_read (conns w c) \<le> BUFFER_SIZE"
  shows "bytes_read (conns (do_read rs ps ws w c) c) \<le> BUFFER_SIZE
       \<and> BUFFER_SIZE = 4096 \<and> BUFFER_SIZE < MAX_REQUEST_SIZE
       \<and> (bytes_read (conns w c) < BUFFER_SIZE
            \<and> length data \<ge> BUFFER_SIZE - bytes_read (conns w c)
            \<and> \<not> too_many_repeats (read_buf (conns w c) @ take (BUFFER_SIZE - bytes_read (conns w c)) data)
          \<longrightarrow> fst (read_loop 0 (Recv_data data # rs) (conns w c))
                = Loop_done (int (BUFFER_SIZE - bytes_read (conns w c))) E_NONE
              \<and> bytes_read (fst (snd (read_loop 0 (Recv_data data # rs) (conns w c)))) = BUFFER_SIZE)
       \<and> (bytes_read (conns w c) = BUFFER_SIZE \<and> fd (conns w c) \<noteq> -1
          \<longrightarrow> state (conns (do_read rs ps ws w c) c) = STATE_FREE
              \<and> fd (conns (do_read rs ps ws w c) c) = -1
              \<and> open_fds (do_read rs ps ws w c) = open_fds w - {fd (conns w c)}
              \<and> fst (do_read_optimized rs ps w c) = -1
              \<and> state (conns (snd (do_read_optimized rs ps w c)) c) = STATE_FREE
              \<and> fd (conns (snd (do_read_optimized rs ps w c)) c) = -1)"
proof (intro conjI impI)
  show "bytes_read (conns (do_read rs ps ws w c) c) \<le> BUFFER_SIZE"
    using assms by (rule do_read_bytes_read)
  show "BUFFER_SIZE = 4096" by (simp add: BUFFER_SIZE_def)
  show "BUFFER_SIZE < MAX_REQUEST_SIZE" by (simp add: BUFFER_SIZE_def MAX_REQUEST_SIZE_def)
next
  assume a: "bytes_read (conns w c) < BUFFER_SIZE
            \<and> length data \<ge> BUFFER_SIZE - bytes_read (conns w c)
            \<and> \<not> too_many_repeats (read_buf (conns w c) @ take (BUFFER_SIZE - bytes_read (conns w c)) data)"
  then have f: "read_loop 0 (Recv_data data # rs) (conns w c) =
           (Loop_done (int (BUFFER_SIZE - bytes_read (conns w c))) E_NONE,
            (conns w c)\<lparr>read_buf := read_buf (conns w c) @ take (BUFFER_SIZE - bytes_read (conns w c)) data,
                 bytes_read := BUFFER_SIZE\<rparr>,
            if drop (BUFFER_SIZE - bytes_read (conns w c)) data = [] then rs
            else Recv_data (drop (BUFFER_SIZE - bytes_read (conns w c)) data) # rs)"
    by (intro read_loop_fill) simp_all
  show "fst (read_loop 0 (Recv_data data # rs) (conns w c))
                = Loop_done (int (BUFFER_SIZE - bytes_read (conns w c))) E_NONE"
    by (simp add: f)
  show "bytes_read (fst (snd (read_loop 0 (Recv_data data # rs) (conns w c)))) = BUFFER_SIZE"
    by (simp add: f)
next
  assume a: "bytes_read (conns w c) = BUFFER_SIZE \<and> fd (conns w c) \<noteq> -1"
  then have b: "bytes_read (conns w c) = BUFFER_SIZE" and f: "fd (conns w c) \<noteq> -1" by simp_all
  show "state (conns (do_read rs ps ws w c) c) = STATE_FREE"
    by (rule do_read_full_closes [OF b f])
  show "fd (conns (do_read rs ps ws w c) c) = -1"
    by (rule do_read_full_closes [OF b f])
  show "open_fds (do_read rs ps ws w c) = open_fds w - {fd (conns w c)}"
    by (rule do_read_full_closes [OF b f])
  show "fst (do_read_optimized rs ps w c) = -1"
    by (rule do_read_optimized_full_closes [OF b f])
  show "state (conns (snd (do_read_optimized rs ps w c)) c) = STATE_FREE"
    by (rule do_read_optimized_full_closes [OF b f])
  show "fd (conns (snd (do_read_optimized rs ps w c)) c) = -1"
    by (rule do_read_optimized_full_closes [OF b f])
qed

theorem read_ceiling_is_buffer_size_witness:
  "bytes_read (conns w_full 0) \<le> BUFFER_SIZE
   \<and> bytes_read (conns w_full 0) = BUFFER_SIZE \<and> fd (conns w_full 0) \<noteq> -1
   \<and> bytes_read (conns (do_read [Recv_data (drop 4096 req8192)] incomplete_parse [] w_full 0) 0)
       \<le> BUFFER_SIZE
   \<and> state (conns (do_read [Recv_data (drop 4096 req8192)] incomplete_parse [] w_full 0) 0)
       = STATE_FREE"
proof -
  have h: "bytes_read (conns w_full 0) \<le> BUFFER_SIZE" by (simp add: w_full_facts)
  have g: "bytes_read (conns w_full 0) = BUFFER_SIZE \<and> fd (conns w_full 0) \<noteq> -1"
    by (simp add: w_full_facts)
  from read_ceiling_is_buffer_size
         [OF h, of "[Recv_data (drop 4096 req8192)]" incomplete_parse "[]" "[]"] g
  show ?thesis using h by blast
qed

subsection \<open>Trailing bytes\<close>

lemma w_reading_facts:
  "bytes_read (conns w_reading 0) = 0" "fd (conns w_reading 0) = 5"
  "state (conns w_reading 0) = STATE_READING" "open_fds w_reading = {5}"
  "read_buf (conns w_reading 0) = []"
  "response_iov0 (conns w_reading 0) = \<lparr>iov_base = [], iov_len = 0\<rparr>"
  "response_iov1 (conns w_reading 0) = \<lparr>iov_base = [], iov_len = 0\<rparr>"
  by (simp_all add: w_reading_def conn0_def)

text \<open>
  One chunk that fits the buffer and stays below the threshold of the repeated-byte
  scan: \<open>do_read\<close> is the parse stage applied to the buffer with the chunk appended.
\<close>

lemma do_read_single_chunk:
  assumes "data \<noteq> []" "bytes_read (conns w c) + length data < BUFFER_SIZE"
    and "bytes_read (conns w c) + length data \<le> 1024"
  shows "do_read [Recv_data data] ps ws w c =
           do_read_parse ps ws
             (set_conn (rearm_request_timer w c) c
                ((conns (rearm_request_timer w c) c)
                   \<lparr>read_buf := read_buf (conns w c) @ data,
                    bytes_read := bytes_read (conns w c) + length data\<rparr>)) c"
proof -
  define w3 where "w3 = rearm_request_timer w c"
  have "read_loop 0 [Recv_data data] (conns w3 c) =
          (Loop_done (-1) EAGAIN,
           (conns w3 c)\<lparr>read_buf := read_buf (conns w3 c) @ data,
                        bytes_read := bytes_read (conns w3 c) + length data\<rparr>, [])"
    using assms by (intro read_loop_single_chunk) (simp_all add: w3_def)
  then show ?thesis
    by (simp add: do_read_def Let_def w3_def [symmetric]) (simp add: w3_def)
qed

section \<open>Accepting connections\<close>

lemma accept_reaches_w_reading:
  "handle_new_connection [Accept_fd 5 True] world0 = w_reading"
  by (simp add: w_reading_def handle_new_connection_def world0_def connection_get_def
      upd_conn_def upd_node_def epoll_ctl_add_def timer_heap_add_def timer_node_pool_get_def
      sift_up.simps MAX_ACCEPTS_PER_LOOP_def REQUEST_TIMEOUT_MS_def deadline_def conn0_def
      http_parser_init_def Let_def)


section \<open>Expired timers\<close>

lemma stuck_step:
  "stuck now w \<Longrightarrow> node_conn (nodes w (heap w ! 0)) = Some c \<Longrightarrow> expire_connection w c = w"
  by (auto simp: stuck_def expire_connection_def)

text \<open>From a stuck state the loop never returns.\<close>

lemma process_expired_loop_stuck:
  assumes "stuck now w"
  shows "process_expired_loop now w = None"
proof (rule ccontr)
  assume "process_expired_loop now w \<noteq> None"
  then obtain y where y: "process_expired_loop now w = Some y" by auto
  have "\<not> stuck now w"
  proof (rule process_expired_loop.raw_induct [where P = "\<lambda>n v y. \<not> stuck n v", OF _ y])
    fix f :: "timespec \<Rightarrow> world \<Rightarrow> world option" and n v r
    assume ih: "\<And>n v y. f n v = Some y \<Longrightarrow> \<not> stuck n v"
      and body: "(if 0 < length (heap v)
          then if \<not> expired n (expiry_time (nodes v (heap v ! 0))) then Some v
               else case node_conn (nodes v (heap v ! 0)) of None \<Rightarrow> None
                    | Some conn \<Rightarrow> f n (expire_connection v conn)
          else Some v) = Some r"
    show "\<not> stuck n v"
    proof
      assume s: "stuck n v"
      show False
      proof (cases "node_conn (nodes v (heap v ! 0))")
        case None
        then show False using s body by (simp add: stuck_def)
      next
        case (Some c)
        have "f n v = Some r"
          using s body Some stuck_step [OF s Some] by (simp add: stuck_def)
        from ih [OF this] s show False by simp
      qed
    qed
  qed
  with assms show False by simp
qed

text \<open>
  A connection that is neither Free nor Closing but has descriptor -1: the pass marks it
  Closing, \<open>close_connection_from_worker\<close> returns at once, and the loop is stuck.
\<close>

lemma expire_connection_nofd:
  assumes "fd (conns w c) = -1" "state (conns w c) \<noteq> STATE_FREE" "state (conns w c) \<noteq> STATE_CLOSING"
  shows "expire_connection w c = upd_conn w c (\<lambda>c. c\<lparr>state := STATE_CLOSING\<rparr>)"
  using assms by (simp add: expire_connection_def close_connection_from_worker_def)

lemma process_expired_loop_nofd:
  assumes "length (heap w) > 0" "expired now (expiry_time (nodes w (heap w ! 0)))"
    and "node_conn (nodes w (heap w ! 0)) = Some c" "fd (conns w c) = -1"
  shows "process_expired_loop now w = None"
proof (cases "state (conns w c) = STATE_FREE \<or> state (conns w c) = STATE_CLOSING")
  case True
  then have "stuck now w" using assms by (auto simp: stuck_def)
  then show ?thesis by (rule process_expired_loop_stuck)
next
  case False
  let ?w' = "upd_conn w c (\<lambda>c. c\<lparr>state := STATE_CLOSING\<rparr>)"
  have e: "expire_connection w c = ?w'"
    using False assms(4) by (intro expire_connection_nofd) simp_all
  have "stuck now ?w'" using assms by (simp add: stuck_def)
  then have "process_expired_loop now ?w' = None" by (rule process_expired_loop_stuck)
  then show ?thesis
    using assms e by (subst process_expired_loop.simps) simp
qed

text \<open>
  C4. The timer of connection 0 has expired. If the connection is already Free or
  already Closing, or if its descriptor is -1, no pass of the loop removes the entry
  from the heap, and \<open>timer_heap_process_expired\<close> never returns.
\<close>

theorem process_expired_never_returns:
  "timer_heap_process_expired w_late_free = None
   \<and> timer_heap_process_expired w_late_closing = None
   \<and> timer_heap_process_expired w_late_nofd = None"
proof -
  have "stuck (clock w_late_free) w_late_free"
    by (simp add: stuck_def expired_def w_late_free_def w_late_def w_reading_def)
  moreover have "stuck (clock w_late_closing) w_late_closing"
    by (simp add: stuck_def expired_def w_late_closing_def w_late_def w_reading_def)
  moreover have "process_expired_loop (clock w_late_nofd) w_late_nofd = None"
    by (rule process_expired_loop_nofd [where c = 0])
       (simp_all add: expired_def w_late_nofd_def w_late_def w_reading_def)
  ultimately show ?thesis
    by (simp add: timer_heap_process_expired_def process_expired_loop_stuck)
qed

theorem process_expired_never_returns_witness:
  "state (conns w_late_closing 0) = STATE_CLOSING
   \<and> timer_heap_process_expired w_late_closing = None"
  using process_expired_never_returns
  by (simp add: w_late_closing_def)

section \<open>The heap operations keep the invariant\<close>

lemma swap_nodes_heap:
  "heap (swap_nodes w a b) = (heap w)[a := heap w ! b, b := heap w ! a]"
  by (simp add: swap_nodes_def upd_node_def Let_def)

lemma swap_nodes_node_fields [simp]:
  "node_conn (nodes (swap_nodes w a b) n) = node_conn (nodes w n)"
  "expiry_time (nodes (swap_nodes w a b) n) = expiry_time (nodes w n)"
  by (simp_all add: swap_nodes_def upd_node_def Let_def)

lemma set_heap_swap_nodes [simp]:
  "a < length (heap w) \<Longrightarrow> b < length (heap w) \<Longrightarrow> set (heap (swap_nodes w a b)) = set (heap w)"
  by (simp add: swap_nodes_heap set_swap)

lemma swap_nodes_nodes:
  "nodes (swap_nodes w a b) =
     (let h = (heap w)[a := heap w ! b, b := heap w ! a];
          ns = (nodes w)(h ! a := (nodes w (h ! a))\<lparr>heap_index := int a\<rparr>)
      in ns(h ! b := (ns (h ! b))\<lparr>heap_index := int b\<rparr>))"
  by (simp add: swap_nodes_def upd_node_def Let_def)

lemma heap_wf_swap_nodes:
  assumes "heap_wf w" "a < length (heap w)" "b < length (heap w)"
  shows "heap_wf (swap_nodes w a b)"
proof -
  define h where "h = (heap w)[a := heap w ! b, b := heap w ! a]"
  have d: "distinct h" using assms by (simp add: h_def heap_wf_def distinct_swap)
  have len: "length h = length (heap w)" by (simp add: h_def)
  have old: "i \<noteq> a \<Longrightarrow> i \<noteq> b \<Longrightarrow> h ! i = heap w ! i" for i by (simp add: h_def)
  have idx: "heap_index (nodes (swap_nodes w a b) (h ! i)) = int i" if i: "i < length (heap w)" for i
  proof -
    have ab: "h ! i = h ! a \<longleftrightarrow> i = a" "h ! i = h ! b \<longleftrightarrow> i = b"
      using d i assms(2,3) len by (simp_all add: nth_eq_iff_index_eq)
    have o: "i \<noteq> a \<Longrightarrow> i \<noteq> b \<Longrightarrow> heap_index (nodes w (h ! i)) = int i"
      using assms(1) i old [of i] by (simp add: heap_wf_def)
    show ?thesis
      unfolding swap_nodes_nodes h_def [symmetric] Let_def
      using ab o by auto
  qed
  show ?thesis
    unfolding heap_wf_def swap_nodes_heap h_def [symmetric] using d idx len by simp
qed

lemma sift_up_node_fields [simp]:
  "node_conn (nodes (sift_up w i) n) = node_conn (nodes w n)"
  "expiry_time (nodes (sift_up w i) n) = expiry_time (nodes w n)"
  by (induction w i rule: sift_up.induct; subst sift_up.simps; simp add: Let_def)+

lemma sift_down_node_fields [simp]:
  "node_conn (nodes (sift_down w i) n) = node_conn (nodes w n)"
  "expiry_time (nodes (sift_down w i) n) = expiry_time (nodes w n)"
  by (induction w i rule: sift_down.induct; subst sift_down.simps; simp add: Let_def)+

lemma sift_up_wf:
  "heap_wf w \<Longrightarrow> i < length (heap w) \<Longrightarrow>
   heap_wf (sift_up w i) \<and> set (heap (sift_up w i)) = set (heap w)"
proof (induction w i rule: sift_up.induct)
  case (1 w index)
  show ?case
  proof (cases "index = 0 \<or> \<not> node_less w index ((index - 1) div 2)")
    case True
    then show ?thesis using "1.prems" by (subst (1 2) sift_up.simps) (auto simp: Let_def)
  next
    case False
    let ?p = "(index - 1) div 2"
    have p: "?p < length (heap w)" using "1.prems"(2) by simp
    have wf: "heap_wf (swap_nodes w index ?p)"
      using "1.prems" p by (intro heap_wf_swap_nodes)
    have ih: "heap_wf (sift_up (swap_nodes w index ?p) ?p)
              \<and> set (heap (sift_up (swap_nodes w index ?p) ?p)) = set (heap (swap_nodes w index ?p))"
      using False wf p by (intro "1.IH") simp_all
    show ?thesis
      using False ih "1.prems"(2) p by (subst (1 2) sift_up.simps) (simp add: Let_def)
  qed
qed

lemma sift_down_wf:
  "heap_wf w \<Longrightarrow> i < length (heap w) \<Longrightarrow>
   heap_wf (sift_down w i) \<and> set (heap (sift_down w i)) = set (heap w)"
proof (induction "length (heap w) - i" arbitrary: w i rule: less_induct)
  case less
  define l where "l = 2 * i + 1"
  define r where "r = 2 * i + 2"
  define s1 where "s1 = (if l < length (heap w) \<and> node_less w l i then l else i)"
  define s where "s = (if r < length (heap w) \<and> node_less w r s1 then r else s1)"
  have s: "s < length (heap w)" "i \<le> s" using less.prems(2) by (auto simp: s_def s1_def l_def r_def)
  have unfold: "sift_down w i = (if s \<noteq> i then sift_down (swap_nodes w i s) s else w)"
    by (subst sift_down.simps) (simp add: Let_def s_def s1_def l_def r_def)
  show ?case
  proof (cases "s = i")
    case True
    then show ?thesis using less.prems by (simp add: unfold)
  next
    case False
    have wf: "heap_wf (swap_nodes w i s)"
      using less.prems s by (intro heap_wf_swap_nodes)
    have "heap_wf (sift_down (swap_nodes w i s) s)
              \<and> set (heap (sift_down (swap_nodes w i s) s)) = set (heap (swap_nodes w i s))"
      using False wf s by (intro less.hyps) simp_all
    then show ?thesis
      using False less.prems(2) s by (simp add: unfold)
  qed
qed

subsection \<open>Removing a timer\<close>

lemma set_butlast_distinct:
  "distinct h \<Longrightarrow> h \<noteq> [] \<Longrightarrow> set (butlast h) = set h - {last h}"
  by (cases h rule: rev_cases) auto

lemma move_last_distinct:
  assumes "distinct h" "i < length h - 1"
  shows "distinct ((butlast h)[i := last h])"
    and "set ((butlast h)[i := last h]) = set h - {h ! i}"
proof -
  from assms obtain xs x where h: "h = xs @ [x]" by (cases h rule: rev_cases) auto
  have i: "i < length xs" using assms(2) h by simp
  have x: "x \<notin> set xs" "distinct xs" using assms(1) h by auto
  show "distinct ((butlast h)[i := last h])"
    using x by (simp add: h distinct_list_update)
  show "set ((butlast h)[i := last h]) = set h - {h ! i}"
    using x i by (auto simp: h set_update_distinct nth_append)
qed

lemma upd_node_heap_index_fields [simp]:
  "node_conn (nodes (upd_node w k (\<lambda>n. n\<lparr>heap_index := j\<rparr>)) m) = node_conn (nodes w m)"
  "expiry_time (nodes (upd_node w k (\<lambda>n. n\<lparr>heap_index := j\<rparr>)) m) = expiry_time (nodes w m)"
  by (simp_all add: upd_node_def)

lemma upd_node_frame [simp]:
  "conns (upd_node w k f) = conns w" "heap (upd_node w k f) = heap w"
  "free_head (upd_node w k f) = free_head w" "th_capacity (upd_node w k f) = th_capacity w"
  "clock (upd_node w k f) = clock w" "epoll_reg (upd_node w k f) = epoll_reg w"
  "open_fds (upd_node w k f) = open_fds w"
  "free_connections_stack (upd_node w k f) = free_connections_stack w"
  by (simp_all add: upd_node_def)

lemma take_out_node_fields [simp]:
  "node_conn (nodes (take_out w i) m) = node_conn (nodes w m)"
  "expiry_time (nodes (take_out w i) m) = expiry_time (nodes w m)"
  by (simp_all add: take_out_def Let_def)

lemma take_out_wf:
  assumes "heap_wf w" "i < length (heap w)"
  shows "heap_wf (take_out w i)"
    and "set (heap (take_out w i)) = set (heap w) - {heap w ! i}"
    and "length (heap (take_out w i)) = length (heap w) - 1"
proof -
  define sz where "sz = length (heap w) - 1"
  have d: "distinct (heap w)" and ix: "\<And>j. j < length (heap w) \<Longrightarrow> heap_index (nodes w (heap w ! j)) = int j"
    using assms(1) by (simp_all add: heap_wf_def)
  have ne: "heap w \<noteq> []" using assms(2) by auto
  have last: "heap w ! sz = last (heap w)" using ne by (simp add: sz_def last_conv_nth)
  have "heap_wf (take_out w i) \<and> set (heap (take_out w i)) = set (heap w) - {heap w ! i}
        \<and> length (heap (take_out w i)) = length (heap w) - 1"
  proof (cases "i = sz")
    case True
    have "heap_wf (w\<lparr>heap := butlast (heap w)\<rparr>)"
      using d ix by (auto simp: heap_wf_def distinct_butlast nth_butlast)
    moreover have "set (butlast (heap w)) = set (heap w) - {heap w ! i}"
      using True last set_butlast_distinct [OF d ne] by simp
    ultimately show ?thesis using True by (simp add: take_out_def sz_def Let_def)
  next
    case False
    then have i: "i < length (heap w) - 1" using assms(2) by (simp add: sz_def)
    define wa where "wa = w\<lparr>heap := (butlast (heap w))[i := heap w ! sz]\<rparr>"
    define wb where "wb = upd_node wa (heap wa ! i) (\<lambda>n. n\<lparr>heap_index := int i\<rparr>)"
    have ha: "heap wa = (butlast (heap w))[i := last (heap w)]" by (simp add: wa_def last)
    have da: "distinct (heap wa)" and sa: "set (heap wa) = set (heap w) - {heap w ! i}"
      using move_last_distinct [OF d i] by (simp_all add: ha)
    have la: "length (heap wa) = length (heap w) - 1" by (simp add: ha)
    have hai: "heap wa ! i = last (heap w)" using i by (simp add: ha)
    have haj: "j < length (heap wa) \<Longrightarrow> j \<noteq> i \<Longrightarrow> heap wa ! j = heap w ! j" for j
      by (simp add: ha nth_butlast)
    have wfb: "heap_wf wb"
      unfolding heap_wf_def
    proof (intro conjI allI impI)
      show "distinct (heap wb)" using da by (simp add: wb_def)
    next
      fix j assume j: "j < length (heap wb)"
      then have j': "j < length (heap wa)" by (simp add: wb_def)
      show "heap_index (nodes wb (heap wb ! j)) = int j"
      proof (cases "j = i")
        case True
        then show ?thesis by (simp add: wb_def upd_node_def)
      next
        case False
        have "heap wa ! j \<noteq> heap wa ! i"
          using da j' i la False by (simp add: nth_eq_iff_index_eq)
        moreover have "heap_index (nodes w (heap w ! j)) = int j"
          using ix j' la by simp
        ultimately show ?thesis
          using haj [OF j' False] by (simp add: wb_def upd_node_def wa_def)
      qed
    qed
    have ib: "i < length (heap wb)" using i la by (simp add: wb_def)
    have sb: "set (heap wb) = set (heap w) - {heap w ! i}" "length (heap wb) = length (heap w) - 1"
      using sa la by (simp_all add: wb_def)
    have t: "take_out w i = (if i > 0 \<and> node_less wb i ((i - 1) div 2) then sift_up wb i else sift_down wb i)"
      using False unfolding take_out_def Let_def sz_def wa_def wb_def by simp
    show ?thesis
      using sift_up_wf [OF wfb ib] sift_down_wf [OF wfb ib] sb by (simp add: t)
  qed
  then show "heap_wf (take_out w i)"
    and "set (heap (take_out w i)) = set (heap w) - {heap w ! i}"
    and "length (heap (take_out w i)) = length (heap w) - 1"
    by simp_all
qed

lemma tinv_slot:
  assumes "tinv w" "timer_node (conns w c) = Some n"
  shows "n \<in> set (heap w)" "node_conn (nodes w n) = Some c"
    "0 \<le> heap_index (nodes w n)" "heap_index (nodes w n) < int (length (heap w))"
    "heap w ! nat (heap_index (nodes w n)) = n"
proof -
  show n: "n \<in> set (heap w)" and "node_conn (nodes w n) = Some c"
    using assms by (auto simp: tinv_def fwd_ok_def)
  then obtain i where i: "i < length (heap w)" "heap w ! i = n"
    by (auto simp: in_set_conv_nth)
  then have "heap_index (nodes w n) = int i"
    using assms(1) by (auto simp: tinv_def heap_wf_def)
  then show "0 \<le> heap_index (nodes w n)" "heap_index (nodes w n) < int (length (heap w))"
    "heap w ! nat (heap_index (nodes w n)) = n"
    using i by simp_all
qed

text \<open>Under the invariant a connection has no timer entry besides its handle.\<close>

lemma tinv_timers_of:
  assumes "tinv w"
  shows "timers_of w c = (case timer_node (conns w c) of None \<Rightarrow> {} | Some n \<Rightarrow> {n})"
proof (cases "timer_node (conns w c)")
  case None
  then show ?thesis using assms by (auto simp: timers_of_def tinv_def back_ok_def)
next
  case (Some n)
  then show ?thesis
    using assms tinv_slot(1,2) [OF assms Some]
    by (auto simp: timers_of_def tinv_def back_ok_def)
qed

lemma timer_heap_remove_None:
  "timer_node (conns w c) = None \<Longrightarrow> timer_heap_remove w c = w"
  by (simp add: timer_heap_remove_def)

lemma timer_heap_remove_Some:
  assumes "tinv w" "timer_node (conns w c) = Some n"
  shows "timer_heap_remove w c =
           upd_conn (timer_node_pool_release (take_out w (nat (heap_index (nodes w n)))) n) c
             (\<lambda>c. c\<lparr>timer_node := None\<rparr>)"
  using tinv_slot [OF assms] assms(2) by (simp add: timer_heap_remove_def Let_def)

lemma timer_heap_remove_tinv:
  assumes "tinv w"
  shows "tinv (timer_heap_remove w c)"
    and "timer_node (conns (timer_heap_remove w c) c) = None"
    and "set (heap (timer_heap_remove w c)) = set (heap w) - timers_of w c"
    and "length (heap (timer_heap_remove w c))
           = length (heap w) - (if timer_node (conns w c) = None then 0 else 1)"
    and "node_conn (nodes (timer_heap_remove w c) m) = node_conn (nodes w m)"
    and "expiry_time (nodes (timer_heap_remove w c) m) = expiry_time (nodes w m)"
proof -
  have "tinv (timer_heap_remove w c)
      \<and> timer_node (conns (timer_heap_remove w c) c) = None
      \<and> set (heap (timer_heap_remove w c)) = set (heap w) - timers_of w c
      \<and> length (heap (timer_heap_remove w c))
           = length (heap w) - (if timer_node (conns w c) = None then 0 else 1)
      \<and> node_conn (nodes (timer_heap_remove w c) m) = node_conn (nodes w m)
      \<and> expiry_time (nodes (timer_heap_remove w c) m) = expiry_time (nodes w m)"
  proof (cases "timer_node (conns w c)")
    case None
    then show ?thesis
      using assms tinv_timers_of [OF assms, of c] by (simp add: timer_heap_remove_None)
  next
    case (Some n)
    define i where "i = nat (heap_index (nodes w n))"
    note sl = tinv_slot [OF assms Some]
    have i: "i < length (heap w)" "heap w ! i = n" using sl by (simp_all add: i_def)
    have hw: "heap_wf w" and bk: "back_ok w" and fw: "fwd_ok w" and pl: "pool_wf w"
      using assms by (simp_all add: tinv_def)
    define w1 where "w1 = take_out w i"
    note t = take_out_wf [OF hw i(1), folded w1_def]
    have s1: "set (heap w1) = set (heap w) - {n}" using t(2) i(2) by simp
    define w' where "w' = upd_conn (timer_node_pool_release w1 n) c (\<lambda>c. c\<lparr>timer_node := None\<rparr>)"
    have eq: "timer_heap_remove w c = w'"
      by (simp add: timer_heap_remove_Some [OF assms Some] w'_def w1_def i_def)
    have f: "heap w' = heap w1" "nodes w' = nodes w1" "free_head w' = n # free_head w"
      "th_capacity w' = th_capacity w"
      "conns w' = (conns w)(c := (conns w c)\<lparr>timer_node := None\<rparr>)"
      by (simp_all add: w'_def w1_def timer_node_pool_release_def)
    have nc: "node_conn (nodes w' k) = node_conn (nodes w k)"
      "expiry_time (nodes w' k) = expiry_time (nodes w k)"
      "node_conn (nodes w1 k) = node_conn (nodes w k)"
      "expiry_time (nodes w1 k) = expiry_time (nodes w k)" for k
      by (simp_all add: f w1_def)
    have hw': "heap_wf w'" using t(1) by (simp add: heap_wf_def f)
    have bk': "back_ok w'"
      unfolding back_ok_def
    proof
      fix k assume "k \<in> set (heap w')"
      then have k: "k \<in> set (heap w)" "k \<noteq> n" using s1 by (simp_all add: f)
      then obtain c' where c': "node_conn (nodes w k) = Some c'" "timer_node (conns w c') = Some k"
        using bk by (auto simp: back_ok_def)
      then have "c' \<noteq> c" using Some k(2) by auto
      then show "\<exists>c. node_conn (nodes w' k) = Some c \<and> timer_node (conns w' c) = Some k"
        using c' by (intro exI [of _ c']) (simp add: nc f)
    qed
    have fw': "fwd_ok w'"
      unfolding fwd_ok_def
    proof (intro allI impI)
      fix c' k assume a: "timer_node (conns w' c') = Some k"
      then have ne: "c' \<noteq> c" by (auto simp: f)
      then have "timer_node (conns w c') = Some k" using a by (simp add: f)
      then have k: "k \<in> set (heap w)" "node_conn (nodes w k) = Some c'"
        using fw by (auto simp: fwd_ok_def)
      then have "k \<noteq> n" using sl(2) ne by auto
      then show "k \<in> set (heap w') \<and> node_conn (nodes w' k) = Some c'"
        using k s1 by (simp add: f nc)
    qed
    have pl': "pool_wf w'"
      using pl sl(1) s1 t(3) i(1) by (auto simp: pool_wf_def f)
    have "timers_of w c = {n}" using tinv_timers_of [OF assms, of c] Some by simp
    then show ?thesis
      unfolding eq
      using hw' bk' fw' pl' s1 t(3) Some by (simp add: tinv_def f nc)
  qed
  then show "tinv (timer_heap_remove w c)"
    and "timer_node (conns (timer_heap_remove w c) c) = None"
    and "set (heap (timer_heap_remove w c)) = set (heap w) - timers_of w c"
    and "length (heap (timer_heap_remove w c))
           = length (heap w) - (if timer_node (conns w c) = None then 0 else 1)"
    and "node_conn (nodes (timer_heap_remove w c) m) = node_conn (nodes w m)"
    and "expiry_time (nodes (timer_heap_remove w c) m) = expiry_time (nodes w m)"
    by simp_all
qed

subsection \<open>Adding a timer\<close>

lemma timer_heap_add_eq:
  assumes "length (heap w) < th_capacity w" "free_head w = n # rest"
  shows "timer_heap_add w c t =
     (0, sift_up
           (w\<lparr>free_head := rest,
              nodes := (nodes w)(n := \<lparr>expiry_time = deadline (clock w) t, node_conn = Some c,
                                       heap_index = int (length (heap w))\<rparr>),
              conns := (conns w)(c := (conns w c)\<lparr>timer_node := Some n\<rparr>),
              heap := heap w @ [n]\<rparr>)
           (length (heap w)))"
  using assms
  by (simp add: timer_heap_add_def timer_node_pool_get_def upd_node_def upd_conn_def Let_def)

lemma timer_heap_add_tinv:
  assumes "tinv w" "timer_node (conns w c) = None" "length (heap w) < th_capacity w"
  shows "\<exists>n. timer_heap_add w c t = (0, snd (timer_heap_add w c t))
           \<and> tinv (snd (timer_heap_add w c t))
           \<and> timer_node (conns (snd (timer_heap_add w c t)) c) = Some n
           \<and> n \<notin> set (heap w)
           \<and> set (heap (snd (timer_heap_add w c t))) = insert n (set (heap w))
           \<and> node_conn (nodes (snd (timer_heap_add w c t)) n) = Some c
           \<and> expiry_time (nodes (snd (timer_heap_add w c t)) n) = deadline (clock w) t
           \<and> (\<forall>m. m \<noteq> n \<longrightarrow>
                 node_conn (nodes (snd (timer_heap_add w c t)) m) = node_conn (nodes w m)
                 \<and> expiry_time (nodes (snd (timer_heap_add w c t)) m) = expiry_time (nodes w m))"
proof -
  have hw: "heap_wf w" and bk: "back_ok w" and fw: "fwd_ok w" and pl: "pool_wf w"
    using assms(1) by (simp_all add: tinv_def)
  from pl assms(3) obtain n rest where fh: "free_head w = n # rest"
    by (cases "free_head w") (auto simp: pool_wf_def)
  have n: "n \<notin> set (heap w)" "n \<notin> set rest" "distinct rest" "set rest \<inter> set (heap w) = {}"
    "length rest + length (heap w) + 1 = th_capacity w"
    using pl fh by (auto simp: pool_wf_def)
  define w6 where "w6 = w\<lparr>free_head := rest,
              nodes := (nodes w)(n := \<lparr>expiry_time = deadline (clock w) t, node_conn = Some c,
                                       heap_index = int (length (heap w))\<rparr>),
              conns := (conns w)(c := (conns w c)\<lparr>timer_node := Some n\<rparr>),
              heap := heap w @ [n]\<rparr>"
  define w' where "w' = sift_up w6 (length (heap w))"
  have eq: "timer_heap_add w c t = (0, w')"
    by (simp add: timer_heap_add_eq [OF assms(3) fh] w'_def w6_def)
  have wf6: "heap_wf w6"
    unfolding heap_wf_def
  proof (intro conjI allI impI)
    show "distinct (heap w6)" using hw n(1) by (simp add: w6_def heap_wf_def)
  next
    fix i assume "i < length (heap w6)"
    then have i: "i < length (heap w) \<or> i = length (heap w)" by (auto simp: w6_def)
    then show "heap_index (nodes w6 (heap w6 ! i)) = int i"
    proof
      assume a: "i < length (heap w)"
      then have "heap w ! i \<noteq> n" using n(1) by (metis nth_mem)
      then show ?thesis using a hw by (simp add: w6_def nth_append heap_wf_def)
    next
      assume "i = length (heap w)"
      then show ?thesis by (simp add: w6_def)
    qed
  qed
  have i6: "length (heap w) < length (heap w6)" by (simp add: w6_def)
  note su = sift_up_wf [OF wf6 i6, folded w'_def]
  have f: "conns w' = (conns w)(c := (conns w c)\<lparr>timer_node := Some n\<rparr>)"
    "free_head w' = rest" "th_capacity w' = th_capacity w"
    "set (heap w') = insert n (set (heap w))" "length (heap w') = length (heap w) + 1"
    using su by (simp_all add: w'_def w6_def)
  have nn: "node_conn (nodes w' n) = Some c" "expiry_time (nodes w' n) = deadline (clock w) t"
    by (simp_all add: w'_def w6_def)
  have nm: "m \<noteq> n \<Longrightarrow> node_conn (nodes w' m) = node_conn (nodes w m)"
    "m \<noteq> n \<Longrightarrow> expiry_time (nodes w' m) = expiry_time (nodes w m)" for m
    by (simp_all add: w'_def w6_def)
  have bk': "back_ok w'"
    unfolding back_ok_def
  proof
    fix k assume "k \<in> set (heap w')"
    then have "k = n \<or> (k \<noteq> n \<and> k \<in> set (heap w))" by (auto simp: f)
    then show "\<exists>c. node_conn (nodes w' k) = Some c \<and> timer_node (conns w' c) = Some k"
    proof
      assume "k = n"
      then show ?thesis by (intro exI [of _ c]) (simp add: nn f)
    next
      assume k: "k \<noteq> n \<and> k \<in> set (heap w)"
      then obtain c' where c': "node_conn (nodes w k) = Some c'" "timer_node (conns w c') = Some k"
        using bk by (auto simp: back_ok_def)
      then have "c' \<noteq> c" using assms(2) by auto
      then show ?thesis using c' k by (intro exI [of _ c']) (simp add: nm f)
    qed
  qed
  have fw': "fwd_ok w'"
    unfolding fwd_ok_def
  proof (intro allI impI)
    fix c' k assume a: "timer_node (conns w' c') = Some k"
    show "k \<in> set (heap w') \<and> node_conn (nodes w' k) = Some c'"
    proof (cases "c' = c")
      case True
      then have "k = n" using a by (simp add: f)
      then show ?thesis using True nn by (simp add: f)
    next
      case False
      then have "timer_node (conns w c') = Some k" using a by (simp add: f)
      then have k: "k \<in> set (heap w)" "node_conn (nodes w k) = Some c'"
        using fw by (auto simp: fwd_ok_def)
      then have "k \<noteq> n" using n(1) by auto
      then show ?thesis using k by (simp add: f nm)
    qed
  qed
  have pl': "pool_wf w'"
    using n by (auto simp: pool_wf_def f)
  have "tinv w'" using su bk' fw' pl' by (simp add: tinv_def)
  then show ?thesis
    unfolding eq using n(1) f nn nm by (intro exI [of _ n]) simp
qed

lemma timer_heap_add_full_tinv:
  assumes "pool_wf w" "\<not> length (heap w) < th_capacity w"
  shows "timer_heap_add w c t = (-1, w)"
  using assms by (simp add: timer_heap_add_def)

section \<open>The worker keeps the invariant\<close>

lemma tinv_cong:
  assumes "heap w' = heap w" "nodes w' = nodes w" "free_head w' = free_head w"
    "th_capacity w' = th_capacity w" "\<And>x. timer_node (conns w' x) = timer_node (conns w x)"
  shows "tinv w' = tinv w"
  using assms by (simp add: tinv_def heap_wf_def back_ok_def fwd_ok_def pool_wf_def)

text \<open>
  A change to one connection record that leaves its timer handle alone keeps the
  invariant, provided the record may hold a timer in its new state.
\<close>

lemma world_inv_set_conn:
  assumes "world_inv w" "timer_node v = timer_node (conns w c)"
    and "timer_node v \<noteq> None \<longrightarrow>
           state v \<noteq> STATE_FREE \<and> state v \<noteq> STATE_CLOSING \<and> state v \<noteq> STATE_WRITING \<and> fd v \<noteq> -1"
  shows "world_inv (set_conn w c v)"
proof -
  have "tinv (set_conn w c v) = tinv w"
    using assms(2) by (intro tinv_cong) simp_all
  moreover have "live_ok (set_conn w c v)" "writing_ok (set_conn w c v)"
    using assms by (auto simp: world_inv_def live_ok_def writing_ok_def)
  ultimately show ?thesis using assms(1) by (simp add: world_inv_def)
qed

lemma world_inv_epoll [simp]:
  "world_inv (epoll_ctl_mod w d ev) = world_inv w"
  "world_inv (epoll_ctl_del w d) = world_inv w"
  "world_inv (epoll_ctl_add w d ev) = world_inv w"
  "world_inv (close_fd w d) = world_inv w"
  by (simp_all add: world_inv_def tinv_def heap_wf_def back_ok_def fwd_ok_def pool_wf_def
      live_ok_def writing_ok_def)

lemma world_inv_clock [simp]: "world_inv (w\<lparr>clock := t\<rparr>) = world_inv w"
  by (simp add: world_inv_def tinv_def heap_wf_def back_ok_def fwd_ok_def pool_wf_def
      live_ok_def writing_ok_def)

text \<open>
  Closing a connection keeps the invariant, whatever the state of that connection; it
  takes the timer of that connection out of the heap and leaves every other connection
  and timer alone.
\<close>

lemma close_connection_inv:
  assumes "tinv w" "writing_ok w"
    and "\<And>x. x \<noteq> c \<Longrightarrow> timer_node (conns w x) \<noteq> None \<Longrightarrow>
           state (conns w x) \<noteq> STATE_FREE \<and> state (conns w x) \<noteq> STATE_CLOSING \<and> fd (conns w x) \<noteq> -1"
    and "fd (conns w c) \<noteq> -1"
  shows "world_inv (close_connection_from_worker w c)"
    and "timer_node (conns (close_connection_from_worker w c) c) = None"
    and "x \<noteq> c \<Longrightarrow> conns (close_connection_from_worker w c) x = conns w x"
    and "set (heap (close_connection_from_worker w c)) = set (heap w) - timers_of w c"
    and "length (heap (close_connection_from_worker w c))
           = length (heap w) - (if timer_node (conns w c) = None then 0 else 1)"
    and "node_conn (nodes (close_connection_from_worker w c) m) = node_conn (nodes w m)"
    and "expiry_time (nodes (close_connection_from_worker w c) m) = expiry_time (nodes w m)"
proof -
  define w2 where "w2 = close_fd (epoll_ctl_del w (fd (conns w c))) (fd (conns w c))"
  define w3 where "w3 = timer_heap_remove w2 c"
  have "tinv w2 = tinv w" by (rule tinv_cong) (simp_all add: w2_def)
  then have t2: "tinv w2" using assms(1) by simp
  have c2: "conns w2 = conns w" "heap w2 = heap w" "nodes w2 = nodes w"
    by (simp_all add: w2_def)
  have to: "timers_of w2 c = timers_of w c" by (simp add: timers_of_def c2)
  note r = timer_heap_remove_tinv [OF t2, of c, folded w3_def]
  have eq: "close_connection_from_worker w c = connection_release w3 c"
    using assms(4) by (simp add: close_connection_from_worker_def Let_def w2_def w3_def)
  have o3: "x \<noteq> c \<Longrightarrow> conns w3 x = conns w x" for x
    by (simp add: w3_def timer_heap_remove_other c2)
  have rel: "heap (connection_release w3 c) = heap w3" "nodes (connection_release w3 c) = nodes w3"
    "free_head (connection_release w3 c) = free_head w3"
    "th_capacity (connection_release w3 c) = th_capacity w3"
    "timer_node (conns (connection_release w3 c) x) = timer_node (conns w3 x)"
    "x \<noteq> c \<Longrightarrow> conns (connection_release w3 c) x = conns w3 x" for x
    using r(2) by (auto simp: connection_release_def Let_def)
  have "tinv (connection_release w3 c) = tinv w3" by (rule tinv_cong) (simp_all add: rel)
  then have t: "tinv (connection_release w3 c)" using r(1) by simp
  have l: "live_ok (connection_release w3 c)"
    unfolding live_ok_def
  proof (intro allI impI)
    fix x assume a: "timer_node (conns (connection_release w3 c) x) \<noteq> None"
    then have "x \<noteq> c" using rel(5) [of c] r(2) by auto
    then show "state (conns (connection_release w3 c) x) \<noteq> STATE_FREE
        \<and> state (conns (connection_release w3 c) x) \<noteq> STATE_CLOSING
        \<and> fd (conns (connection_release w3 c) x) \<noteq> -1"
      using a assms(3) [of x] by (simp add: rel o3)
  qed
  have wr: "writing_ok (connection_release w3 c)"
    unfolding writing_ok_def
  proof (intro allI impI)
    fix x assume a: "state (conns (connection_release w3 c) x) = STATE_WRITING"
    show "timer_node (conns (connection_release w3 c) x) = None"
    proof (cases "x = c")
      case True
      then show ?thesis using rel(5) [of c] r(2) by simp
    next
      case False
      then show ?thesis using a assms(2) by (simp add: rel o3 writing_ok_def)
    qed
  qed
  show "world_inv (close_connection_from_worker w c)"
    using t l wr by (simp add: eq world_inv_def)
  show "timer_node (conns (close_connection_from_worker w c) c) = None"
    using rel(5) [of c] r(2) by (simp add: eq)
  show "x \<noteq> c \<Longrightarrow> conns (close_connection_from_worker w c) x = conns w x"
    by (simp add: eq rel o3)
  show "set (heap (close_connection_from_worker w c)) = set (heap w) - timers_of w c"
    using r(3) by (simp add: eq rel to c2)
  show "length (heap (close_connection_from_worker w c))
           = length (heap w) - (if timer_node (conns w c) = None then 0 else 1)"
    using r(4) by (simp add: eq rel c2)
  show "node_conn (nodes (close_connection_from_worker w c) m) = node_conn (nodes w m)"
    using r(5) by (simp add: eq rel c2)
  show "expiry_time (nodes (close_connection_from_worker w c) m) = expiry_time (nodes w m)"
    using r(6) by (simp add: eq rel c2)
qed

lemma timer_heap_remove_inv:
  assumes "world_inv w"
  shows "world_inv (timer_heap_remove w c)"
proof -
  have t: "tinv w" using assms by (simp add: world_inv_def)
  note r = timer_heap_remove_tinv [OF t, of c]
  have o: "timer_node (conns (timer_heap_remove w c) x) \<noteq> None \<Longrightarrow>
           timer_node (conns (timer_heap_remove w c) x) = timer_node (conns w x)" for x
    using r(2) timer_heap_remove_other [of x c w] by (cases "x = c") auto
  have "live_ok (timer_heap_remove w c)"
    using assms o by (auto simp: world_inv_def live_ok_def)
  moreover have "writing_ok (timer_heap_remove w c)"
    using assms o unfolding world_inv_def writing_ok_def
    by (metis timer_heap_remove_fields(2))
  ultimately show ?thesis using r(1) by (simp add: world_inv_def)
qed

lemma timer_heap_add_inv:
  assumes "world_inv w" "timer_node (conns w c) = None"
    and "state (conns w c) \<noteq> STATE_FREE" "state (conns w c) \<noteq> STATE_CLOSING"
    and "state (conns w c) \<noteq> STATE_WRITING" "fd (conns w c) \<noteq> -1"
  shows "world_inv (snd (timer_heap_add w c t))"
proof (cases "length (heap w) < th_capacity w")
  case False
  then show ?thesis
    using assms(1) by (simp add: timer_heap_add_full_tinv world_inv_def tinv_def)
next
  case True
  have t: "tinv w" using assms by (simp add: world_inv_def)
  from timer_heap_add_tinv [OF t assms(2) True, of t]
  have ti: "tinv (snd (timer_heap_add w c t))" by blast
  have o: "x \<noteq> c \<Longrightarrow> conns (snd (timer_heap_add w c t)) x = conns w x" for x
    by (rule timer_heap_add_other)
  have "live_ok (snd (timer_heap_add w c t))"
    unfolding live_ok_def
  proof (intro allI impI)
    fix x assume a: "timer_node (conns (snd (timer_heap_add w c t)) x) \<noteq> None"
    show "state (conns (snd (timer_heap_add w c t)) x) \<noteq> STATE_FREE
        \<and> state (conns (snd (timer_heap_add w c t)) x) \<noteq> STATE_CLOSING
        \<and> fd (conns (snd (timer_heap_add w c t)) x) \<noteq> -1"
    proof (cases "x = c")
      case True
      then show ?thesis using assms(3,4,6) by simp
    next
      case False
      then show ?thesis using a assms(1) o [OF False] by (simp add: world_inv_def live_ok_def)
    qed
  qed
  moreover have "writing_ok (snd (timer_heap_add w c t))"
    unfolding writing_ok_def
  proof (intro allI impI)
    fix x assume a: "state (conns (snd (timer_heap_add w c t)) x) = STATE_WRITING"
    then have "x \<noteq> c" using assms(5) by auto
    then show "timer_node (conns (snd (timer_heap_add w c t)) x) = None"
      using a assms(1) o [of x] by (simp add: world_inv_def writing_ok_def)
  qed
  ultimately show ?thesis using ti by (simp add: world_inv_def)
qed

text \<open>
  The first two statements of read processing: they keep the invariant, and when the
  connection held a timer or the heap has room they leave the connection with exactly one
  timer entry, whose deadline is the clock plus the request timeout.
\<close>

lemma rearm_request_timer_inv:
  assumes "world_inv w" "fd (conns w c) \<noteq> -1"
  shows "world_inv (rearm_request_timer w c)"
proof -
  define w1 where "w1 = set_conn w c ((conns w c)\<lparr>state := STATE_READING\<rparr>)"
  have w1: "world_inv w1"
    unfolding w1_def using assms by (intro world_inv_set_conn) simp_all
  have e: "upd_conn w c (\<lambda>c. c\<lparr>state := STATE_READING\<rparr>) = w1"
    by (simp add: w1_def upd_conn_def set_conn_def)
  have w2: "world_inv (timer_heap_remove w1 c)" using w1 by (rule timer_heap_remove_inv)
  have n: "timer_node (conns (timer_heap_remove w1 c) c) = None"
    using w1 by (intro timer_heap_remove_tinv) (simp add: world_inv_def)
  have "world_inv (snd (timer_heap_add (timer_heap_remove w1 c) c REQUEST_TIMEOUT_MS))"
    using w2 n assms(2) by (intro timer_heap_add_inv) (simp_all add: w1_def)
  then show ?thesis by (simp add: rearm_request_timer_def Let_def e)
qed

lemma rearm_request_timer_armed:
  assumes "world_inv w" "fd (conns w c) \<noteq> -1"
    and "timer_node (conns w c) \<noteq> None \<or> length (heap w) < th_capacity w"
  shows "\<exists>n. timer_node (conns (rearm_request_timer w c) c) = Some n
           \<and> expiry_time (nodes (rearm_request_timer w c) n) = deadline (clock w) REQUEST_TIMEOUT_MS"
proof -
  define w1 where "w1 = set_conn w c ((conns w c)\<lparr>state := STATE_READING\<rparr>)"
  have w1: "world_inv w1"
    unfolding w1_def using assms by (intro world_inv_set_conn) simp_all
  then have t1: "tinv w1" by (simp add: world_inv_def)
  have e: "upd_conn w c (\<lambda>c. c\<lparr>state := STATE_READING\<rparr>) = w1"
    by (simp add: w1_def upd_conn_def set_conn_def)
  define w2 where "w2 = timer_heap_remove w1 c"
  note r = timer_heap_remove_tinv [OF t1, of c, folded w2_def]
  have cap: "length (heap w1) \<le> th_capacity w1" using t1 by (simp add: tinv_def pool_wf_def)
  have room: "length (heap w2) < th_capacity w2"
  proof (cases "timer_node (conns w c) = None")
    case True
    then show ?thesis using r(4) assms(3) by (simp add: w1_def w2_def)
  next
    case False
    then have "0 < length (heap w1)"
      using tinv_slot(1) [OF t1, of c] by (auto simp: w1_def)
    moreover have "length (heap w2) = length (heap w1) - 1"
      using r(4) False by (simp add: w1_def)
    moreover have "th_capacity w2 = th_capacity w1" by (simp add: w2_def)
    ultimately show ?thesis using cap by arith
  qed
  from timer_heap_add_tinv [OF r(1) r(2) room, of REQUEST_TIMEOUT_MS]
  obtain n where "timer_node (conns (snd (timer_heap_add w2 c REQUEST_TIMEOUT_MS)) c) = Some n"
    "expiry_time (nodes (snd (timer_heap_add w2 c REQUEST_TIMEOUT_MS)) n)
       = deadline (clock w2) REQUEST_TIMEOUT_MS"
    by blast
  then show ?thesis
    by (intro exI [of _ n]) (simp add: rearm_request_timer_def Let_def e w2_def w1_def)
qed

subsection \<open>Expired timers in a well-formed worker\<close>

lemma expire_connection_inv:
  assumes "world_inv w" "heap w \<noteq> []" "node_conn (nodes w (heap w ! 0)) = Some c"
  shows "world_inv (expire_connection w c)"
    and "length (heap (expire_connection w c)) = length (heap w) - 1"
    and "x \<noteq> c \<Longrightarrow> conns (expire_connection w c) x = conns w x"
    and "timer_node (conns w c) = Some (heap w ! 0)"
    and "node_conn (nodes (expire_connection w c) m) = node_conn (nodes w m)"
    and "expiry_time (nodes (expire_connection w c) m) = expiry_time (nodes w m)"
proof -
  have t: "tinv w" and l: "live_ok w" and wr: "writing_ok w"
    using assms(1) by (simp_all add: world_inv_def)
  have top: "heap w ! 0 \<in> set (heap w)" using assms(2) by simp
  then obtain c' where "node_conn (nodes w (heap w ! 0)) = Some c'"
    "timer_node (conns w c') = Some (heap w ! 0)"
    using t unfolding tinv_def back_ok_def by blast
  then show tn: "timer_node (conns w c) = Some (heap w ! 0)" using assms(3) by simp
  then have live: "state (conns w c) \<noteq> STATE_FREE" "state (conns w c) \<noteq> STATE_CLOSING"
    "fd (conns w c) \<noteq> -1"
    using l by (auto simp: live_ok_def)
  define wc where "wc = upd_conn w c (\<lambda>c. c\<lparr>state := STATE_CLOSING\<rparr>)"
  have e: "expire_connection w c = close_connection_from_worker wc c"
    using live by (simp add: expire_connection_def wc_def)
  have "tinv wc = tinv w" by (rule tinv_cong) (simp_all add: wc_def)
  then have tc: "tinv wc" using t by simp
  have wrc: "writing_ok wc" using wr by (simp add: writing_ok_def wc_def)
  have oth: "x \<noteq> c \<Longrightarrow> timer_node (conns wc x) \<noteq> None \<Longrightarrow>
           state (conns wc x) \<noteq> STATE_FREE \<and> state (conns wc x) \<noteq> STATE_CLOSING
           \<and> fd (conns wc x) \<noteq> -1" for x
    using l by (simp add: live_ok_def wc_def)
  have fdc: "fd (conns wc c) \<noteq> -1" using live by (simp add: wc_def)
  note cl = close_connection_inv [OF tc wrc oth fdc]
  show "world_inv (expire_connection w c)" using cl(1) by (simp add: e)
  show "length (heap (expire_connection w c)) = length (heap w) - 1"
    using cl(5) tn by (simp add: e wc_def)
  show "x \<noteq> c \<Longrightarrow> conns (expire_connection w c) x = conns w x"
    using cl(3) [of x] by (simp add: e wc_def)
  show "node_conn (nodes (expire_connection w c) m) = node_conn (nodes w m)"
    using cl(6) by (simp add: e wc_def)
  show "expiry_time (nodes (expire_connection w c) m) = expiry_time (nodes w m)"
    using cl(7) by (simp add: e wc_def)
qed

text \<open>
  In a worker that satisfies the invariant, the loop of \<open>timer_heap_process_expired\<close>
  terminates, leaves no expired root, keeps the invariant, and does not touch any
  connection whose timer is not due.
\<close>

lemma process_expired_loop_inv:
  assumes "world_inv w"
  shows "\<exists>w'. process_expired_loop now w = Some w' \<and> world_inv w'
           \<and> (heap w' = [] \<or> \<not> expired now (expiry_time (nodes w' (heap w' ! 0))))
           \<and> (\<forall>x. not_due now w x \<longrightarrow> conns w' x = conns w x)
           \<and> (\<forall>m. expiry_time (nodes w' m) = expiry_time (nodes w m))"
  using assms
proof (induction "length (heap w)" arbitrary: w rule: less_induct)
  case less
  show ?case
  proof (cases "heap w \<noteq> [] \<and> expired now (expiry_time (nodes w (heap w ! 0)))")
    case False
    then have "process_expired_loop now w = Some w"
      by (subst process_expired_loop.simps) auto
    then show ?thesis using False less.prems by auto
  next
    case True
    have t: "tinv w" using less.prems by (simp add: world_inv_def)
    have "heap w ! 0 \<in> set (heap w)" using True by simp
    then obtain c where c: "node_conn (nodes w (heap w ! 0)) = Some c"
      using t unfolding tinv_def back_ok_def by blast
    note e = expire_connection_inv [OF less.prems _ c]
    define w1 where "w1 = expire_connection w c"
    have step: "process_expired_loop now w = process_expired_loop now w1"
      using True c by (subst process_expired_loop.simps) (simp add: w1_def)
    have inv1: "world_inv w1" using e(1) True by (simp add: w1_def)
    have len: "length (heap w1) < length (heap w)"
      using e(2) True by (simp add: w1_def)
    from less.hyps [OF len inv1] obtain w' where
      w': "process_expired_loop now w1 = Some w'" "world_inv w'"
        "heap w' = [] \<or> \<not> expired now (expiry_time (nodes w' (heap w' ! 0)))"
        "\<And>x. not_due now w1 x \<Longrightarrow> conns w' x = conns w1 x"
        "\<And>m. expiry_time (nodes w' m) = expiry_time (nodes w1 m)"
      by blast
    have due: "\<not> not_due now w c"
      using e(4) True by (simp add: not_due_def)
    have keep: "conns w' x = conns w x" if nd: "not_due now w x" for x
    proof -
      have xc: "x \<noteq> c" using nd due by auto
      then have same: "conns w1 x = conns w x" using e(3) True by (simp add: w1_def)
      have ex1: "expiry_time (nodes w1 m) = expiry_time (nodes w m)" for m
        using e(6) True by (simp add: w1_def)
      have "not_due now w1 x"
        using nd by (simp add: not_due_def same ex1 split: option.splits)
      then show ?thesis using w'(4) same by simp
    qed
    have ex: "expiry_time (nodes w' m) = expiry_time (nodes w m)" for m
      using w'(5) e(6) True by (simp add: w1_def)
    show ?thesis
      using w'(1,2,3) keep ex by (auto simp: step)
  qed
qed

section \<open>Read processing and the request timer\<close>

text \<open>
  With the connection in \<open>STATE_READING\<close>, the parse stage of \<open>do_read\<close> either closes
  the connection or re-arms read readiness: no callback moves the connection out of
  \<open>STATE_READING\<close>.
\<close>

lemma do_read_parse_cases:
  assumes "state (conns w c) = STATE_READING"
  shows "do_read_parse ps ws w c =
           close_connection_from_worker
             (set_conn w c (snd (http_parser_execute ps (conns w c) (read_buf (conns w c))))) c
       \<or> do_read_parse ps ws w c =
           epoll_ctl_mod
             (set_conn w c (snd (http_parser_execute ps (conns w c) (read_buf (conns w c)))))
             (fd (conns w c))
             \<lparr>events = [EPOLLIN, EPOLLET, EPOLLONESHOT], data_ptr = c\<rparr>"
proof -
  obtain parsed c'' where pe: "http_parser_execute ps (conns w c) (read_buf (conns w c)) = (parsed, c'')"
    by (cases "http_parser_execute ps (conns w c) (read_buf (conns w c))") auto
  have "state c'' = STATE_READING" "fd c'' = fd (conns w c)"
    using http_parser_execute_fields(1,2) [of ps "conns w c" "read_buf (conns w c)"] pe assms
    by simp_all
  then show ?thesis
    by (simp add: do_read_parse_def pe Let_def)
qed

lemma do_read_cases:
  "\<exists>v. timer_node v = timer_node (conns (rearm_request_timer w c) c)
       \<and> state v = STATE_READING \<and> fd v = fd (conns w c)
       \<and> (do_read rs ps ws w c
             = close_connection_from_worker (set_conn (rearm_request_timer w c) c v) c
          \<or> do_read rs ps ws w c
             = epoll_ctl_mod (set_conn (rearm_request_timer w c) c v) (fd (conns w c))
                 \<lparr>events = [EPOLLIN, EPOLLET, EPOLLONESHOT], data_ptr = c\<rparr>)"
proof -
  define w3 where "w3 = rearm_request_timer w c"
  obtain ex c' rs' where rl: "read_loop 0 rs (conns w3 c) = (ex, c', rs')"
    by (cases "read_loop 0 rs (conns w3 c)") auto
  have c': "timer_node c' = timer_node (conns w3 c)" "state c' = STATE_READING"
    "fd c' = fd (conns w c)"
  proof -
    have e: "c' = fst (snd (read_loop 0 rs (conns w3 c)))" by (simp add: rl)
    show "timer_node c' = timer_node (conns w3 c)" "state c' = STATE_READING"
      "fd c' = fd (conns w c)"
      unfolding e by (simp_all add: w3_def)
  qed
  define v where "v = snd (http_parser_execute ps c' (read_buf c'))"
  have v: "timer_node v = timer_node (conns w3 c)" "state v = STATE_READING"
    "fd v = fd (conns w c)"
    using c' by (simp_all add: v_def)
  have sc: "set_conn (set_conn w3 c c') c u = set_conn w3 c u" for u
    by (simp add: set_conn_def)
  have p: "do_read_parse ps ws (set_conn w3 c c') c = close_connection_from_worker (set_conn w3 c v) c
         \<or> do_read_parse ps ws (set_conn w3 c c') c =
             epoll_ctl_mod (set_conn w3 c v) (fd (conns w c))
               \<lparr>events = [EPOLLIN, EPOLLET, EPOLLONESHOT], data_ptr = c\<rparr>"
    using do_read_parse_cases [of "set_conn w3 c c'" c ps ws] c'
    by (simp add: v_def sc)
  have "do_read rs ps ws w c = close_connection_from_worker (set_conn w3 c c') c
      \<or> do_read rs ps ws w c = do_read_parse ps ws (set_conn w3 c c') c"
    by (cases ex) (simp_all add: do_read_def Let_def w3_def [symmetric] rl)
  then show ?thesis
  proof
    assume "do_read rs ps ws w c = close_connection_from_worker (set_conn w3 c c') c"
    then show ?thesis using c' unfolding w3_def by (intro exI [of _ c']) simp
  next
    assume "do_read rs ps ws w c = do_read_parse ps ws (set_conn w3 c c') c"
    then show ?thesis using p v unfolding w3_def by (intro exI [of _ v]) auto
  qed
qed

text \<open>The same for \<open>do_read_optimized\<close>, which has a third outcome: the response is prepared.\<close>

lemma read_loop_optimized_shape:
  "\<exists>b k. fst (snd (read_loop_optimized a rs conn)) = conn\<lparr>read_buf := b, bytes_read := k\<rparr>"
proof (induction "MAX_READ_ATTEMPTS_OPT - a" arbitrary: a rs conn rule: less_induct)
  case less
  show ?case
  proof (cases "BUFFER_SIZE - bytes_read conn = 0")
    case True
    then have "read_loop_optimized a rs conn = (Loop_close, conn, rs)"
      by (subst read_loop_optimized.simps) simp
    then show ?thesis
      by (intro exI [of _ "read_buf conn"] exI [of _ "bytes_read conn"]) simp
  next
    case False
    obtain nread err d rs' where rc: "recv rs (BUFFER_SIZE - bytes_read conn) = (nread, err, d, rs')"
      by (cases "recv rs (BUFFER_SIZE - bytes_read conn)") auto
    define conn1 where "conn1 = (if nread > 0
                        then conn\<lparr>read_buf := read_buf conn @ d,
                                  bytes_read := bytes_read conn + nat nread\<rparr>
                        else conn)"
    have c1: "\<exists>b k. conn1 = conn\<lparr>read_buf := b, bytes_read := k\<rparr>"
    proof (cases "nread > 0")
      case True
      then show ?thesis unfolding conn1_def by (simp only: if_True) blast
    next
      case False
      then show ?thesis unfolding conn1_def
        by (intro exI [of _ "read_buf conn"] exI [of _ "bytes_read conn"]) simp
    qed
    define again where "again = (\<not> (nread > 0 \<and> bytes_read conn1 > MAX_REQUEST_SIZE)
        \<and> \<not> (nread > 0 \<and> \<not> simd_validate_url_chars d)
        \<and> nread > 0 \<and> bytes_read conn1 < BUFFER_SIZE \<and> a + 1 < MAX_READ_ATTEMPTS_OPT)"
    show ?thesis
    proof (cases again)
      case True
      then have r: "read_loop_optimized a rs conn = read_loop_optimized (a + 1) rs' conn1"
        using False rc unfolding again_def conn1_def
        by (subst read_loop_optimized.simps) (auto simp add: Let_def)
      have "MAX_READ_ATTEMPTS_OPT - (a + 1) < MAX_READ_ATTEMPTS_OPT - a"
        using True unfolding again_def by arith
      then have "\<exists>b k. fst (snd (read_loop_optimized (a + 1) rs' conn1))
                   = conn1\<lparr>read_buf := b, bytes_read := k\<rparr>"
        by (rule less)
      then obtain b k where
        i: "fst (snd (read_loop_optimized (a + 1) rs' conn1)) = conn1\<lparr>read_buf := b, bytes_read := k\<rparr>"
        by blast
      from c1 obtain b1 k1 where j: "conn1 = conn\<lparr>read_buf := b1, bytes_read := k1\<rparr>" by blast
      have "fst (snd (read_loop_optimized a rs conn)) = conn\<lparr>read_buf := b, bytes_read := k\<rparr>"
        unfolding r i by (simp add: j)
      then show ?thesis by blast
    next
      case n: False
      then have "fst (snd (read_loop_optimized a rs conn)) = conn1"
        using False rc unfolding again_def conn1_def
        by (subst read_loop_optimized.simps) (auto simp add: Let_def)
      then show ?thesis using c1 by simp
    qed
  qed
qed

lemma read_loop_optimized_fields:
  "fd (fst (snd (read_loop_optimized a rs conn))) = fd conn"
  "state (fst (snd (read_loop_optimized a rs conn))) = state conn"
  "timer_node (fst (snd (read_loop_optimized a rs conn))) = timer_node conn"
  using read_loop_optimized_shape [of a rs conn] by auto

lemma do_read_optimized_parse_cases:
  "(\<exists>u. timer_node u = timer_node (conns w c) \<and> state u = state (conns w c)
        \<and> fd u = fd (conns w c)
        \<and> (snd (do_read_optimized_parse ps w c)
              = close_connection_from_worker_optimized (set_conn w c u) c
           \<or> snd (do_read_optimized_parse ps w c)
              = upd_conn (timer_heap_remove (set_conn w c u) c) c
                  handle_request_and_prepare_response))
   \<or> snd (do_read_optimized_parse ps w c)
        = epoll_ctl_mod w (fd (conns w c))
            \<lparr>events = [EPOLLIN, EPOLLET, EPOLLONESHOT, EPOLLRDHUP], data_ptr = c\<rparr>"
proof (cases "simd_find_header_end (read_buf (conns w c))")
  case None
  then show ?thesis by (simp add: do_read_optimized_parse_def)
next
  case (Some h)
  define u where "u = snd (http_parser_execute ps (conns w c) (take (h + 4) (read_buf (conns w c))))"
  have u: "timer_node u = timer_node (conns w c)" "state u = state (conns w c)"
    "fd u = fd (conns w c)"
    by (simp_all add: u_def)
  have "snd (do_read_optimized_parse ps w c)
              = close_connection_from_worker_optimized (set_conn w c u) c
           \<or> snd (do_read_optimized_parse ps w c)
              = upd_conn (timer_heap_remove (set_conn w c u) c) c
                  handle_request_and_prepare_response"
    unfolding u_def
    by (cases "http_parser_execute ps (conns w c) (take (h + 4) (read_buf (conns w c)))")
       (simp add: do_read_optimized_parse_def Some Let_def)
  then show ?thesis using u by blast
qed

lemma do_read_optimized_cases:
  "\<exists>v. timer_node v = timer_node (conns (rearm_request_timer w c) c)
       \<and> state v = STATE_READING \<and> fd v = fd (conns w c)
       \<and> (snd (do_read_optimized rs ps w c)
             = close_connection_from_worker_optimized (set_conn (rearm_request_timer w c) c v) c
          \<or> snd (do_read_optimized rs ps w c)
             = upd_conn (timer_heap_remove (set_conn (rearm_request_timer w c) c v) c) c
                 handle_request_and_prepare_response
          \<or> snd (do_read_optimized rs ps w c)
             = epoll_ctl_mod (set_conn (rearm_request_timer w c) c v) (fd (conns w c))
                 \<lparr>events = [EPOLLIN, EPOLLET, EPOLLONESHOT, EPOLLRDHUP], data_ptr = c\<rparr>)"
proof -
  define w3 where "w3 = rearm_request_timer w c"
  obtain ex c' rs' where rl: "read_loop_optimized 0 rs (conns w3 c) = (ex, c', rs')"
    by (cases "read_loop_optimized 0 rs (conns w3 c)") auto
  have c': "timer_node c' = timer_node (conns w3 c)" "state c' = STATE_READING"
    "fd c' = fd (conns w c)"
  proof -
    have e: "c' = fst (snd (read_loop_optimized 0 rs (conns w3 c)))" by (simp add: rl)
    show "timer_node c' = timer_node (conns w3 c)" "state c' = STATE_READING"
      "fd c' = fd (conns w c)"
      unfolding e by (simp_all add: read_loop_optimized_fields w3_def)
  qed
  have sc: "set_conn (set_conn w3 c c') c u = set_conn w3 c u" for u
    by (simp add: set_conn_def)
  have "snd (do_read_optimized rs ps w c) = close_connection_from_worker_optimized (set_conn w3 c c') c
      \<or> snd (do_read_optimized rs ps w c) = snd (do_read_optimized_parse ps (set_conn w3 c c') c)"
    by (cases ex) (simp_all add: do_read_optimized_def Let_def w3_def [symmetric] rl)
  then show ?thesis
  proof
    assume "snd (do_read_optimized rs ps w c) = close_connection_from_worker_optimized (set_conn w3 c c') c"
    then show ?thesis using c' unfolding w3_def by (intro exI [of _ c']) simp
  next
    assume d: "snd (do_read_optimized rs ps w c) = snd (do_read_optimized_parse ps (set_conn w3 c c') c)"
    from do_read_optimized_parse_cases [of "set_conn w3 c c'" c ps]
    show ?thesis
    proof
      assume "\<exists>u. timer_node u = timer_node (conns (set_conn w3 c c') c)
                 \<and> state u = state (conns (set_conn w3 c c') c)
                 \<and> fd u = fd (conns (set_conn w3 c c') c)
                 \<and> (snd (do_read_optimized_parse ps (set_conn w3 c c') c)
                       = close_connection_from_worker_optimized (set_conn (set_conn w3 c c') c u) c
                    \<or> snd (do_read_optimized_parse ps (set_conn w3 c c') c)
                       = upd_conn (timer_heap_remove (set_conn (set_conn w3 c c') c u) c) c
                           handle_request_and_prepare_response)"
      then obtain u where u: "timer_node u = timer_node c'" "state u = state c'" "fd u = fd c'"
        "snd (do_read_optimized_parse ps (set_conn w3 c c') c)
                       = close_connection_from_worker_optimized (set_conn w3 c u) c
                    \<or> snd (do_read_optimized_parse ps (set_conn w3 c c') c)
                       = upd_conn (timer_heap_remove (set_conn w3 c u) c) c
                           handle_request_and_prepare_response"
        by (auto simp: sc)
      then show ?thesis using c' d unfolding w3_def by (intro exI [of _ u]) auto
    next
      assume "snd (do_read_optimized_parse ps (set_conn w3 c c') c)
        = epoll_ctl_mod (set_conn w3 c c') (fd (conns (set_conn w3 c c') c))
            \<lparr>events = [EPOLLIN, EPOLLET, EPOLLONESHOT, EPOLLRDHUP], data_ptr = c\<rparr>"
      then show ?thesis using c' d unfolding w3_def by (intro exI [of _ c']) simp
    qed
  qed
qed

text \<open>
  A read event after which the connection is still in \<open>STATE_READING\<close> took the branch
  that re-arms read readiness. The connection then holds exactly the timer armed at the
  start of the event.
\<close>

lemma survivor_rearmed:
  assumes "fd (conns w c) \<noteq> -1"
    and "w' = do_read rs ps ws w c \<or> w' = snd (do_read_optimized rs ps w c)"
    and "state (conns w' c) = STATE_READING"
  shows "\<exists>v ev. w' = epoll_ctl_mod (set_conn (rearm_request_timer w c) c v) (fd (conns w c)) ev
           \<and> timer_node v = timer_node (conns (rearm_request_timer w c) c)
           \<and> state v = STATE_READING \<and> fd v = fd (conns w c)"
  using assms(2)
proof
  assume e: "w' = do_read rs ps ws w c"
  from do_read_cases [of w c rs ps ws] obtain v where
    v: "timer_node v = timer_node (conns (rearm_request_timer w c) c)"
       "state v = STATE_READING" "fd v = fd (conns w c)"
    and d: "do_read rs ps ws w c
             = close_connection_from_worker (set_conn (rearm_request_timer w c) c v) c
          \<or> do_read rs ps ws w c
             = epoll_ctl_mod (set_conn (rearm_request_timer w c) c v) (fd (conns w c))
                 \<lparr>events = [EPOLLIN, EPOLLET, EPOLLONESHOT], data_ptr = c\<rparr>"
    by blast
  have pre: "fd (conns (set_conn (rearm_request_timer w c) c v) c) \<noteq> -1"
    "state (conns (set_conn (rearm_request_timer w c) c v) c) \<noteq> STATE_FREE"
    using v assms(1) by simp_all
  have "state (conns (close_connection_from_worker (set_conn (rearm_request_timer w c) c v) c) c)
          = STATE_FREE"
    by (simp add: close_connection_conn [OF pre])
  with d assms(3) e have "w' = epoll_ctl_mod (set_conn (rearm_request_timer w c) c v) (fd (conns w c))
                 \<lparr>events = [EPOLLIN, EPOLLET, EPOLLONESHOT], data_ptr = c\<rparr>"
    by auto
  with v show ?thesis by blast
next
  assume e: "w' = snd (do_read_optimized rs ps w c)"
  from do_read_optimized_cases [of w c rs ps] obtain v where
    v: "timer_node v = timer_node (conns (rearm_request_timer w c) c)"
       "state v = STATE_READING" "fd v = fd (conns w c)"
    and d: "snd (do_read_optimized rs ps w c)
             = close_connection_from_worker_optimized (set_conn (rearm_request_timer w c) c v) c
          \<or> snd (do_read_optimized rs ps w c)
             = upd_conn (timer_heap_remove (set_conn (rearm_request_timer w c) c v) c) c
                 handle_request_and_prepare_response
          \<or> snd (do_read_optimized rs ps w c)
             = epoll_ctl_mod (set_conn (rearm_request_timer w c) c v) (fd (conns w c))
                 \<lparr>events = [EPOLLIN, EPOLLET, EPOLLONESHOT, EPOLLRDHUP], data_ptr = c\<rparr>"
    by blast
  have pre: "fd (conns (set_conn (rearm_request_timer w c) c v) c) \<noteq> -1"
    "state (conns (set_conn (rearm_request_timer w c) c v) c) \<noteq> STATE_FREE"
    using v assms(1) by simp_all
  have "state (conns (close_connection_from_worker_optimized
                        (set_conn (rearm_request_timer w c) c v) c) c) = STATE_FREE"
    by (simp add: close_connection_optimized_conn [OF pre])
  moreover have "state (conns (upd_conn (timer_heap_remove (set_conn (rearm_request_timer w c) c v) c) c
                 handle_request_and_prepare_response) c) = STATE_WRITING"
    by simp
  ultimately have "w' = epoll_ctl_mod (set_conn (rearm_request_timer w c) c v) (fd (conns w c))
                 \<lparr>events = [EPOLLIN, EPOLLET, EPOLLONESHOT, EPOLLRDHUP], data_ptr = c\<rparr>"
    using d assms(3) e by auto
  with v show ?thesis by blast
qed

lemma rearm_request_timer_unarmed:
  assumes "world_inv w" "timer_node (conns w c) = None" "\<not> length (heap w) < th_capacity w"
  shows "timer_node (conns (rearm_request_timer w c) c) = None"
proof -
  define w1 where "w1 = upd_conn w c (\<lambda>c. c\<lparr>state := STATE_READING\<rparr>)"
  have n1: "timer_node (conns w1 c) = None" using assms(2) by (simp add: w1_def)
  have r: "timer_heap_remove w1 c = w1" using n1 by (rule timer_heap_remove_None)
  have "pool_wf w" using assms(1) by (simp add: world_inv_def tinv_def)
  then have "pool_wf w1" by (simp add: pool_wf_def w1_def)
  moreover have "\<not> length (heap w1) < th_capacity w1" using assms(3) by (simp add: w1_def)
  ultimately have "timer_heap_add w1 c REQUEST_TIMEOUT_MS = (-1, w1)"
    by (rule timer_heap_add_full_tinv)
  then show ?thesis
    using n1 by (simp add: rearm_request_timer_def Let_def w1_def [symmetric] r)
qed

lemma deadline_request:
  "tv_nsec now < 1000000000 \<Longrightarrow>
     deadline now REQUEST_TIMEOUT_MS = \<lparr>tv_sec = tv_sec now + 5, tv_nsec = tv_nsec now\<rparr>"
  by (simp add: deadline_def REQUEST_TIMEOUT_MS_def Let_def)

lemma world_inv_w_reading: "world_inv w_reading"
  by (simp add: world_inv_def tinv_def heap_wf_def back_ok_def fwd_ok_def pool_wf_def
      live_ok_def writing_ok_def w_reading_def conn0_def)

lemma first_line_read:
  "do_read [Recv_data first_line] first_line_parse [] w_reading 0 =
     epoll_ctl_mod
       (set_conn (rearm_request_timer w_reading 0) 0
          (snd (http_parser_execute first_line_parse
                  ((conns (rearm_request_timer w_reading 0) 0)
                     \<lparr>read_buf := first_line, bytes_read := 22\<rparr>) first_line)))
       5 \<lparr>events = [EPOLLIN, EPOLLET, EPOLLONESHOT], data_ptr = 0\<rparr>"
proof -
  have len: "length first_line = 22" by (simp add: first_line_def CRLF_def)
  have ne: "first_line \<noteq> []" by (simp add: first_line_def)
  define w where "w = set_conn (rearm_request_timer w_reading 0) 0
                ((conns (rearm_request_timer w_reading 0) 0)
                   \<lparr>read_buf := read_buf (conns w_reading 0) @ first_line,
                    bytes_read := bytes_read (conns w_reading 0) + length first_line\<rparr>)"
  have dr: "do_read [Recv_data first_line] first_line_parse [] w_reading 0
            = do_read_parse first_line_parse [] w 0"
    unfolding w_def
    by (intro do_read_single_chunk) (simp_all add: w_reading_facts len BUFFER_SIZE_def ne)
  have w: "state (conns w 0) = STATE_READING" "read_buf (conns w 0) = first_line"
    "bytes_read (conns w 0) = 22" "fd (conns w 0) = 5"
    by (simp_all add: w_def w_reading_facts len)
  have cb: "fst (run_callbacks (ps_events first_line_parse) (read_buf (conns w 0)) (conns w 0)) = HPE_OK"
    by (simp add: w first_line_parse_def first_line_def
        on_url_callback_def validate_url_def URL_MAX_LEN_def
        is_valid_url_char_def isalnum_def c_str_def CRLF_def CR_def LF_def NUL_def)
  have dp: "do_read_parse first_line_parse [] w 0 =
           epoll_ctl_mod
             (set_conn w 0 (snd (http_parser_execute first_line_parse (conns w 0) (read_buf (conns w 0)))))
             (fd (conns w 0))
             \<lparr>events = [EPOLLIN, EPOLLET, EPOLLONESHOT], data_ptr = 0\<rparr>"
    by (rule do_read_parse_rearm [OF w(1) cb])
       (simp_all add: first_line_parse_def w MAX_REQUEST_SIZE_def)
  have c: "conns w 0 = (conns (rearm_request_timer w_reading 0) 0)
                     \<lparr>read_buf := first_line, bytes_read := 22\<rparr>"
    by (simp add: w_def w_reading_facts len)
  have s: "set_conn w 0 u = set_conn (rearm_request_timer w_reading 0) 0 u" for u
    by (simp add: w_def set_conn_def)
  show ?thesis
    unfolding dr dp s w c by (simp add: w_reading_facts)
qed

section \<open>C10: the request timer is re-armed by every read\<close>

text \<open>
  C10. A readable event first cancels the timer entry the connection holds and arms a
  fresh one, \<open>REQUEST_TIMEOUT_MS\<close> = 5000 ms after the clock reading of that event. In a
  worker whose timer heap is well formed, take a connection that is still in
  \<open>STATE_READING\<close> after the event (base or optimized worker). If it had a timer to give
  back or the heap has a free slot, it now holds exactly one timer entry, expiring 5 s
  after the event. In every case a run of \<open>timer_heap_process_expired\<close> at any time \<open>t\<close>
  before that deadline returns and leaves the connection as it is. So a client whose
  bytes arrive less than 5 s apart is not closed by the request timer, however long the
  headers take.
\<close>

theorem request_timer_rearmed_by_read:
  assumes "world_inv w" and "fd (conns w c) \<noteq> -1"
    and "tv_nsec (clock w) < 1000000000"
    and "w' = do_read rs ps ws w c \<or> w' = snd (do_read_optimized rs ps w c)"
    and "state (conns w' c) = STATE_READING"
    and "\<not> expired t \<lparr>tv_sec = tv_sec (clock w) + 5, tv_nsec = tv_nsec (clock w)\<rparr>"
  shows "world_inv w'
       \<and> (timer_node (conns w c) \<noteq> None \<or> length (heap w) < th_capacity w \<longrightarrow>
            (\<exists>n. timer_node (conns w' c) = Some n \<and> timers_of w' c = {n}
                 \<and> expiry_time (nodes w' n)
                     = \<lparr>tv_sec = tv_sec (clock w) + 5, tv_nsec = tv_nsec (clock w)\<rparr>))
       \<and> (\<exists>w''. timer_heap_process_expired (w'\<lparr>clock := t\<rparr>) = Some w''
              \<and> world_inv w'' \<and> conns w'' c = conns w' c)"
proof -
  define w3 where "w3 = rearm_request_timer w c"
  define dl where "dl = \<lparr>tv_sec = tv_sec (clock w) + 5, tv_nsec = tv_nsec (clock w)\<rparr>"
  from survivor_rearmed [OF assms(2,4,5)] obtain v ev where
    w': "w' = epoll_ctl_mod (set_conn w3 c v) (fd (conns w c)) ev"
    and v: "timer_node v = timer_node (conns w3 c)" "state v = STATE_READING"
           "fd v = fd (conns w c)"
    unfolding w3_def by blast
  have i3: "world_inv w3" unfolding w3_def by (rule rearm_request_timer_inv [OF assms(1,2)])
  have "world_inv (set_conn w3 c v)"
    using i3 v assms(2) by (intro world_inv_set_conn) simp_all
  then have inv: "world_inv w'" by (simp add: w')
  then have ti: "tinv w'" by (simp add: world_inv_def)
  have armed: "\<exists>n. timer_node (conns w' c) = Some n \<and> timers_of w' c = {n}
                 \<and> expiry_time (nodes w' n) = dl"
    if room: "timer_node (conns w c) \<noteq> None \<or> length (heap w) < th_capacity w"
  proof -
    from rearm_request_timer_armed [OF assms(1,2) room] obtain n where
      n: "timer_node (conns w3 c) = Some n"
         "expiry_time (nodes w3 n) = deadline (clock w) REQUEST_TIMEOUT_MS"
      unfolding w3_def by blast
    have tn: "timer_node (conns w' c) = Some n" using n(1) v(1) by (simp add: w')
    have ex: "expiry_time (nodes w' n) = dl"
      using n(2) by (simp add: w' dl_def deadline_request [OF assms(3)])
    have ts: "timers_of w' c = {n}" using tn by (simp add: tinv_timers_of [OF ti])
    show ?thesis using tn ts ex by blast
  qed
  have nd: "not_due t (w'\<lparr>clock := t\<rparr>) c"
  proof (cases "timer_node (conns w c) \<noteq> None \<or> length (heap w) < th_capacity w")
    case True
    from armed [OF True] obtain n where
      "timer_node (conns w' c) = Some n" "expiry_time (nodes w' n) = dl"
      by blast
    then show ?thesis using assms(6) by (simp add: not_due_def dl_def)
  next
    case False
    then have "timer_node (conns w3 c) = None"
      unfolding w3_def by (intro rearm_request_timer_unarmed [OF assms(1)]) simp_all
    then have "timer_node (conns w' c) = None" using v(1) by (simp add: w')
    then show ?thesis by (simp add: not_due_def)
  qed
  have "world_inv (w'\<lparr>clock := t\<rparr>)" using inv by simp
  from process_expired_loop_inv [OF this, of t] obtain w'' where
    p: "process_expired_loop t (w'\<lparr>clock := t\<rparr>) = Some w''" "world_inv w''"
       "\<forall>x. not_due t (w'\<lparr>clock := t\<rparr>) x \<longrightarrow> conns w'' x = conns (w'\<lparr>clock := t\<rparr>) x"
    by blast
  have "conns w'' c = conns w' c" using p(3) nd by simp
  with p(1,2) have "\<exists>w''. timer_heap_process_expired (w'\<lparr>clock := t\<rparr>) = Some w''
              \<and> world_inv w'' \<and> conns w'' c = conns w' c"
    by (simp add: timer_heap_process_expired_def)
  with inv armed show ?thesis unfolding dl_def by blast
qed

theorem request_timer_rearmed_by_read_witness:
  "world_inv w_reading
   \<and> timer_node (conns w_reading 0) \<noteq> None
   \<and> state (conns (do_read [Recv_data first_line] first_line_parse [] w_reading 0) 0) = STATE_READING
   \<and> (\<exists>n. timers_of (do_read [Recv_data first_line] first_line_parse [] w_reading 0) 0 = {n}
          \<and> expiry_time (nodes (do_read [Recv_data first_line] first_line_parse [] w_reading 0) n)
              = \<lparr>tv_sec = 105, tv_nsec = 0\<rparr>)
   \<and> (\<exists>w''. timer_heap_process_expired
               ((do_read [Recv_data first_line] first_line_parse [] w_reading 0)
                  \<lparr>clock := \<lparr>tv_sec = 104, tv_nsec = 0\<rparr>\<rparr>) = Some w''
          \<and> state (conns w'' 0) = STATE_READING \<and> fd (conns w'' 0) = 5)"
proof -
  define w' where "w' = do_read [Recv_data first_line] first_line_parse [] w_reading 0"
  have st: "state (conns w' 0) = STATE_READING" "fd (conns w' 0) = 5"
    unfolding w'_def first_line_read by (simp_all add: w_reading_facts)
  have h: "fd (conns w_reading 0) \<noteq> -1"
    "timer_node (conns w_reading 0) \<noteq> None"
    "tv_nsec (clock w_reading) < 1000000000"
    "w' = do_read [Recv_data first_line] first_line_parse [] w_reading 0
       \<or> w' = snd (do_read_optimized [Recv_data first_line] first_line_parse w_reading 0)"
    "\<not> expired \<lparr>tv_sec = 104, tv_nsec = 0\<rparr>
        \<lparr>tv_sec = tv_sec (clock w_reading) + 5, tv_nsec = tv_nsec (clock w_reading)\<rparr>"
    by (simp_all add: w'_def w_reading_def conn0_def expired_def)
  have c: "tv_sec (clock w_reading) = 100" "tv_nsec (clock w_reading) = 0"
    by (simp_all add: w_reading_def)
  show ?thesis
    using request_timer_rearmed_by_read [OF world_inv_w_reading h(1,3,4) st(1) h(5)] st h(2)
      world_inv_w_reading
    unfolding w'_def [symmetric] c by auto
qed

section \<open>The invariant across event processing in the base worker\<close>

lemma close_connection_world_inv:
  assumes "world_inv w"
  shows "world_inv (close_connection_from_worker w c)"
proof (cases "fd (conns w c) = -1")
  case True
  then show ?thesis using assms by (simp add: close_connection_from_worker_def)
next
  case False
  have "tinv w" "writing_ok w" using assms by (simp_all add: world_inv_def)
  moreover have "timer_node (conns w x) \<noteq> None \<Longrightarrow>
      state (conns w x) \<noteq> STATE_FREE \<and> state (conns w x) \<noteq> STATE_CLOSING \<and> fd (conns w x) \<noteq> -1" for x
    using assms by (simp add: world_inv_def live_ok_def)
  ultimately show ?thesis using False by (intro close_connection_inv(1)) auto
qed

text \<open>
  \<open>do_write\<close> on a connection in \<open>STATE_WRITING\<close>: the connection has no timer on entry,
  and gets one only on the keep-alive branch, after the state has left \<open>STATE_WRITING\<close>.
\<close>

lemma do_write_inv:
  assumes "world_inv w" "state (conns w c) = STATE_WRITING" "fd (conns w c) \<noteq> -1"
  shows "world_inv (do_write ws w c)"
proof -
  have tn: "timer_node (conns w c) = None"
    using assms(1,2) by (simp add: world_inv_def writing_ok_def)
  obtain e c' r where wl: "write_loop 0 ws (conns w c) = (e, c', r)"
    by (cases "write_loop 0 ws (conns w c)") auto
  from write_loop_shape [of 0 ws "conns w c"] wl
  obtain n where c': "c' = (conns w c)\<lparr>bytes_sent := n\<rparr>" by auto
  have i: "world_inv (set_conn w c c')"
    using assms(1) tn by (intro world_inv_set_conn) (simp_all add: c')
  have cl: "world_inv (close_connection_from_worker (set_conn w c c') c)"
    using i by (rule close_connection_world_inv)
  have cw: "world_inv (close_connection_from_worker w c)"
    using assms(1) by (rule close_connection_world_inv)
  define v where "v = c'\<lparr>state := STATE_KEEP_ALIVE, parser := http_parser_init,
                              bytes_read := 0, read_buf := [], bytes_sent := 0, url := []\<rparr>"
  have "world_inv (set_conn w c v)"
    using assms(1) tn by (intro world_inv_set_conn) (simp_all add: v_def c')
  then have "world_inv (epoll_ctl_mod (set_conn w c v) (fd c')
                 \<lparr>events = [EPOLLIN, EPOLLET, EPOLLONESHOT], data_ptr = c\<rparr>)"
    by simp
  then have ka: "world_inv (snd (timer_heap_add (epoll_ctl_mod (set_conn w c v) (fd c')
                 \<lparr>events = [EPOLLIN, EPOLLET, EPOLLONESHOT], data_ptr = c\<rparr>) c KEEP_ALIVE_TIMEOUT_MS))"
    using tn assms(3) by (intro timer_heap_add_inv) (simp_all add: v_def c')
  show ?thesis
  proof (cases e)
    case Write_again
    then show ?thesis using i by (simp add: do_write_def Let_def wl cw)
  next
    case Write_error
    then show ?thesis using cl by (simp add: do_write_def Let_def wl cw)
  next
    case (Write_done a)
    then show ?thesis
      using cl ka by (simp add: do_write_def Let_def wl cw v_def [symmetric])
  qed
qed

lemma do_read_dispatch_inv:
  assumes "world_inv w" "fd (conns w c) \<noteq> -1"
  shows "world_inv (do_read_dispatch ws w c)"
proof -
  define w1 where "w1 = timer_heap_remove w c"
  have i1: "world_inv w1" unfolding w1_def using assms(1) by (rule timer_heap_remove_inv)
  have tn: "timer_node (conns w1 c) = None"
    unfolding w1_def using assms(1) by (intro timer_heap_remove_tinv) (simp add: world_inv_def)
  define w2 where "w2 = set_conn w1 c (handle_request_and_prepare_response (conns w1 c))"
  have e: "upd_conn w1 c handle_request_and_prepare_response = w2"
    by (simp add: w2_def upd_conn_def set_conn_def)
  have i2: "world_inv w2"
    unfolding w2_def using i1 tn by (intro world_inv_set_conn) simp_all
  have "state (conns w2 c) = STATE_WRITING" "fd (conns w2 c) \<noteq> -1"
    using assms(2) by (simp_all add: w2_def w1_def)
  then have "world_inv (do_write ws w2 c)" using i2 by (intro do_write_inv)
  then show ?thesis by (simp add: do_read_dispatch_def Let_def w1_def [symmetric] e)
qed

lemma do_read_inv:
  assumes "world_inv w" "fd (conns w c) \<noteq> -1"
  shows "world_inv (do_read rs ps ws w c)"
proof -
  define w3 where "w3 = rearm_request_timer w c"
  have i3: "world_inv w3" unfolding w3_def by (rule rearm_request_timer_inv [OF assms])
  from do_read_cases [of w c rs ps ws] obtain v where
    v: "timer_node v = timer_node (conns w3 c)" "state v = STATE_READING" "fd v = fd (conns w c)"
    and d: "do_read rs ps ws w c = close_connection_from_worker (set_conn w3 c v) c
          \<or> do_read rs ps ws w c
             = epoll_ctl_mod (set_conn w3 c v) (fd (conns w c))
                 \<lparr>events = [EPOLLIN, EPOLLET, EPOLLONESHOT], data_ptr = c\<rparr>"
    unfolding w3_def by blast
  have i: "world_inv (set_conn w3 c v)"
    using i3 v assms(2) by (intro world_inv_set_conn) simp_all
  from d show ?thesis
  proof
    assume "do_read rs ps ws w c = close_connection_from_worker (set_conn w3 c v) c"
    then show ?thesis using close_connection_world_inv [OF i] by simp
  next
    assume "do_read rs ps ws w c
             = epoll_ctl_mod (set_conn w3 c v) (fd (conns w c))
                 \<lparr>events = [EPOLLIN, EPOLLET, EPOLLONESHOT], data_ptr = c\<rparr>"
    then show ?thesis using i by simp
  qed
qed

text \<open>
  A first \<open>writev\<close> that returns \<open>EAGAIN\<close>: \<open>do_write\<close> asks for write readiness and
  returns, and that is all it does.
\<close>

lemma do_write_eagain:
  assumes "bytes_sent (conns w c)
             < iov_len (response_iov0 (conns w c)) + iov_len (response_iov1 (conns w c))"
    and "iov_len (response_iov0 (conns w c)) + iov_len (response_iov1 (conns w c)) \<le> 65536"
  shows "do_write (Wv_eagain # ws) w c
           = epoll_ctl_mod w (fd (conns w c))
               \<lparr>events = [EPOLLOUT, EPOLLET, EPOLLONESHOT], data_ptr = c\<rparr>"
proof -
  have wl: "write_loop 0 (Wv_eagain # ws) (conns w c) = (Write_again, conns w c, ws)"
    using assms(1) by (subst write_loop.simps) (simp add: MAX_WRITE_ATTEMPTS_def Let_def)
  have sc: "set_conn w c (conns w c) = w" by (simp add: set_conn_def)
  show ?thesis using assms(2) by (simp add: do_write_def Let_def wl sc)
qed

section \<open>The free stack across event processing\<close>

lemma free_ok_set_conn:
  assumes "free_ok w"
    and "state v = STATE_FREE \<or> (state (conns w c) \<noteq> STATE_FREE \<and> fd v \<noteq> -1)"
  shows "free_ok (set_conn w c v)"
  using assms by (auto simp: free_ok_def)

lemma free_ok_upd_conn:
  assumes "free_ok w"
    and "state (f (conns w c)) = STATE_FREE
         \<or> (state (conns w c) \<noteq> STATE_FREE \<and> fd (f (conns w c)) \<noteq> -1)"
  shows "free_ok (upd_conn w c f)"
  using assms by (auto simp: free_ok_def)

lemma free_ok_fd: "free_ok w \<Longrightarrow> state (conns w c) \<noteq> STATE_FREE \<Longrightarrow> fd (conns w c) \<noteq> -1"
  by (simp add: free_ok_def)

lemma world_inv_fields [simp]:
  "world_inv (w\<lparr>free_connections_stack := s\<rparr>) = world_inv w"
  "world_inv (w\<lparr>open_fds := o'\<rparr>) = world_inv w"
  by (simp_all add: world_inv_def tinv_def heap_wf_def back_ok_def fwd_ok_def pool_wf_def
      live_ok_def writing_ok_def)

lemma free_ok_fields [simp]:
  "free_ok (w\<lparr>open_fds := o'\<rparr>) = free_ok w"
  "free_ok (w\<lparr>clock := t\<rparr>) = free_ok w"
  "free_ok (epoll_ctl_mod w d ev) = free_ok w"
  "free_ok (epoll_ctl_del w d) = free_ok w"
  "free_ok (epoll_ctl_add w d ev) = free_ok w"
  "free_ok (close_fd w d) = free_ok w"
  "free_ok (timer_heap_remove w c) = free_ok w"
  "free_ok (snd (timer_heap_add w c ms)) = free_ok w"
  by (simp_all add: free_ok_def)

lemma connection_release_free_ok:
  assumes "free_ok w"
  shows "free_ok (connection_release w c)"
  using assms by (auto simp: connection_release_def free_ok_def Let_def)

lemma close_connection_free_ok:
  assumes "free_ok w"
  shows "free_ok (close_connection_from_worker w c)"
  using assms
  by (simp add: close_connection_from_worker_def Let_def connection_release_free_ok)

lemma rearm_request_timer_free_ok:
  assumes "free_ok w" "state (conns w c) \<noteq> STATE_FREE"
  shows "free_ok (rearm_request_timer w c)"
  using assms free_ok_fd [OF assms]
  by (simp add: rearm_request_timer_def Let_def free_ok_upd_conn)

lemma do_read_free_ok:
  assumes "free_ok w" "state (conns w c) \<noteq> STATE_FREE"
  shows "free_ok (do_read rs ps ws w c)"
proof -
  define w3 where "w3 = rearm_request_timer w c"
  have f3: "free_ok w3" unfolding w3_def by (rule rearm_request_timer_free_ok [OF assms])
  from do_read_cases [of w c rs ps ws] obtain v where
    v: "fd v = fd (conns w c)"
    and d: "do_read rs ps ws w c = close_connection_from_worker (set_conn w3 c v) c
          \<or> do_read rs ps ws w c
             = epoll_ctl_mod (set_conn w3 c v) (fd (conns w c))
                 \<lparr>events = [EPOLLIN, EPOLLET, EPOLLONESHOT], data_ptr = c\<rparr>"
    unfolding w3_def by blast
  have "free_ok (set_conn w3 c v)"
    using f3 v free_ok_fd [OF assms] by (intro free_ok_set_conn) (simp_all add: w3_def)
  then show ?thesis
    using d close_connection_free_ok [of "set_conn w3 c v" c] by auto
qed

lemma do_write_free_ok:
  assumes "free_ok w" "state (conns w c) \<noteq> STATE_FREE"
  shows "free_ok (do_write ws w c)"
proof -
  obtain e c' r where wl: "write_loop 0 ws (conns w c) = (e, c', r)"
    by (cases "write_loop 0 ws (conns w c)") auto
  from write_loop_shape [of 0 ws "conns w c"] wl
  obtain n where c': "c' = (conns w c)\<lparr>bytes_sent := n\<rparr>" by auto
  have s: "free_ok (set_conn w c v)" if "fd v = fd (conns w c)" for v
    using assms that free_ok_fd [OF assms] by (intro free_ok_set_conn) simp_all
  have s1: "free_ok (set_conn w c c')" by (rule s) (simp add: c')
  have s2: "free_ok (set_conn w c (c'\<lparr>state := STATE_KEEP_ALIVE, parser := http_parser_init,
                              bytes_read := 0, read_buf := [], bytes_sent := 0, url := []\<rparr>))"
    by (rule s) (simp add: c')
  show ?thesis
    using assms(1)
    by (cases e) (simp_all add: do_write_def Let_def wl s1 s2 close_connection_free_ok)
qed

lemma do_read_dispatch_free_ok:
  assumes "free_ok w" "state (conns w c) \<noteq> STATE_FREE"
  shows "free_ok (do_read_dispatch ws w c)"
proof -
  define w1 where "w1 = timer_heap_remove w c"
  define w2 where "w2 = set_conn w1 c (handle_request_and_prepare_response (conns w1 c))"
  have e: "upd_conn w1 c handle_request_and_prepare_response = w2"
    by (simp add: w2_def upd_conn_def set_conn_def)
  have "free_ok w2"
    unfolding w2_def using assms free_ok_fd [OF assms]
    by (intro free_ok_set_conn) (simp_all add: w1_def)
  moreover have "state (conns w2 c) \<noteq> STATE_FREE" by (simp add: w2_def)
  ultimately have "free_ok (do_write ws w2 c)" by (rule do_write_free_ok)
  then show ?thesis by (simp add: do_read_dispatch_def Let_def w1_def [symmetric] e)
qed

lemma expire_connection_free_ok:
  assumes "free_ok w"
  shows "free_ok (expire_connection w c)"
proof (cases "state (conns w c) = STATE_FREE")
  case True
  then show ?thesis using assms by (simp add: expire_connection_def)
next
  case False
  have "free_ok (upd_conn w c (\<lambda>c. c\<lparr>state := STATE_CLOSING\<rparr>))"
    using assms False free_ok_fd [OF assms False] by (intro free_ok_upd_conn) simp_all
  then show ?thesis
    using assms by (simp add: expire_connection_def close_connection_free_ok)
qed

lemma process_expired_loop_worker_inv:
  assumes "world_inv w" "free_ok w"
  shows "\<exists>w'. process_expired_loop now w = Some w' \<and> world_inv w' \<and> free_ok w'"
  using assms
proof (induction "length (heap w)" arbitrary: w rule: less_induct)
  case less
  show ?case
  proof (cases "heap w \<noteq> [] \<and> expired now (expiry_time (nodes w (heap w ! 0)))")
    case False
    then have "process_expired_loop now w = Some w"
      by (subst process_expired_loop.simps) auto
    then show ?thesis using less.prems by auto
  next
    case True
    have t: "tinv w" using less.prems by (simp add: world_inv_def)
    have "heap w ! 0 \<in> set (heap w)" using True by simp
    then obtain c where c: "node_conn (nodes w (heap w ! 0)) = Some c"
      using t unfolding tinv_def back_ok_def by blast
    note e = expire_connection_inv [OF less.prems(1) _ c]
    define w1 where "w1 = expire_connection w c"
    have step: "process_expired_loop now w = process_expired_loop now w1"
      using True c by (subst process_expired_loop.simps) (simp add: w1_def)
    have inv1: "world_inv w1" using e(1) True by (simp add: w1_def)
    have f1: "free_ok w1" unfolding w1_def using less.prems(2) by (rule expire_connection_free_ok)
    have len: "length (heap w1) < length (heap w)"
      using e(2) True by (simp add: w1_def)
    from less.hyps [OF len inv1 f1] show ?thesis by (simp add: step)
  qed
qed

section \<open>Changes to one record\<close>

lemma world_inv_upd_conn:
  assumes "world_inv w" "timer_node (f (conns w c)) = timer_node (conns w c)"
    and "timer_node (f (conns w c)) \<noteq> None \<longrightarrow>
           state (f (conns w c)) \<noteq> STATE_FREE \<and> state (f (conns w c)) \<noteq> STATE_CLOSING
           \<and> state (f (conns w c)) \<noteq> STATE_WRITING \<and> fd (f (conns w c)) \<noteq> -1"
  shows "world_inv (upd_conn w c f)"
proof -
  have e: "upd_conn w c f = set_conn w c (f (conns w c))"
    by (simp add: upd_conn_def set_conn_def)
  show ?thesis unfolding e using assms by (rule world_inv_set_conn)
qed

lemma connection_release_world_inv:
  assumes "world_inv w" "timer_node (conns w c) = None"
  shows "world_inv (connection_release w c)"
proof -
  have "world_inv (upd_conn w c (\<lambda>c. c\<lparr>state := STATE_FREE, fd := -1, timer_node := None\<rparr>))"
    using assms by (intro world_inv_upd_conn) simp_all
  then show ?thesis using assms(1) by (simp add: connection_release_def Let_def)
qed

section \<open>Room in the timer heap\<close>

text \<open>
  Every entry of the heap belongs to a record of the pool of its own, so the heap never
  holds more than \<open>MAX_CONNECTIONS\<close> entries and always has a free slot.
\<close>

lemma heap_room:
  assumes "world_inv w" "free_ok w"
  shows "length (heap w) < th_capacity w"
proof -
  have t: "tinv w" and l: "live_ok w" using assms(1) by (simp_all add: world_inv_def)
  have bk: "back_ok w" and hw: "heap_wf w" using t by (simp_all add: tinv_def)
  have cap: "MAX_CONNECTIONS < th_capacity w"
    using assms(2) unfolding free_ok_def by blast
  have idx: "c < MAX_CONNECTIONS" if "state (conns w c) \<noteq> STATE_FREE" for c
    using assms(2) that unfolding free_ok_def by blast
  define f where "f = (\<lambda>n. the (node_conn (nodes w n)))"
  have a: "timer_node (conns w (f n)) = Some n" if "n \<in> set (heap w)" for n
  proof -
    from bk that obtain c where "node_conn (nodes w n) = Some c" "timer_node (conns w c) = Some n"
      unfolding back_ok_def by blast
    then show ?thesis by (simp add: f_def)
  qed
  have inj: "inj_on f (set (heap w))"
  proof (rule inj_onI)
    fix n m assume n: "n \<in> set (heap w)" and m: "m \<in> set (heap w)" and e: "f n = f m"
    have "Some n = timer_node (conns w (f n))" using a [OF n] by (rule sym)
    also have "\<dots> = timer_node (conns w (f m))" by (simp only: e)
    also have "\<dots> = Some m" by (rule a [OF m])
    finally show "n = m" by (simp only: option.inject)
  qed
  have sub: "f ` set (heap w) \<subseteq> {..<MAX_CONNECTIONS}"
  proof
    fix c assume "c \<in> f ` set (heap w)"
    then obtain n where n: "n \<in> set (heap w)" "c = f n" by (rule imageE)
    have "timer_node (conns w c) = Some n" unfolding n(2) by (rule a [OF n(1)])
    then have "timer_node (conns w c) \<noteq> None" by simp
    then have "state (conns w c) \<noteq> STATE_FREE" using l unfolding live_ok_def by blast
    then have "c < MAX_CONNECTIONS" by (rule idx)
    then show "c \<in> {..<MAX_CONNECTIONS}" by (rule lessThan_iff [THEN iffD2])
  qed
  have fin: "finite {..<MAX_CONNECTIONS}" by (rule finite_lessThan)
  have "card (set (heap w)) \<le> card {..<MAX_CONNECTIONS}"
    using inj sub fin by (rule card_inj_on_le)
  moreover have "card {..<MAX_CONNECTIONS} = MAX_CONNECTIONS" by (rule card_lessThan)
  moreover have "distinct (heap w)" using hw unfolding heap_wf_def by blast
  then have "length (heap w) = card (set (heap w))" by (rule distinct_card [symmetric])
  ultimately have "length (heap w) \<le> MAX_CONNECTIONS" by (simp only:)
  then show ?thesis using cap by (rule le_less_trans)
qed

section \<open>What a step does to the other records\<close>

lemma connection_release_other:
  "x \<noteq> c \<Longrightarrow> conns (connection_release w c) x = conns w x"
  by (simp add: connection_release_def Let_def)

lemma close_connection_other:
  "x \<noteq> c \<Longrightarrow> conns (close_connection_from_worker w c) x = conns w x"
  by (simp add: close_connection_from_worker_def Let_def connection_release_other
      timer_heap_remove_other)

lemma close_connection_state:
  assumes "fd (conns w c) \<noteq> -1"
  shows "state (conns (close_connection_from_worker w c) c) = STATE_FREE"
proof (cases "state (conns w c) = STATE_FREE")
  case True
  then show ?thesis
    using assms by (simp add: close_connection_from_worker_def Let_def connection_release_def)
next
  case False
  then show ?thesis by (simp add: close_connection_conn [OF assms])
qed

lemma rearm_request_timer_other:
  "x \<noteq> c \<Longrightarrow> conns (rearm_request_timer w c) x = conns w x"
  by (simp add: rearm_request_timer_def Let_def timer_heap_add_other timer_heap_remove_other)

lemma do_read_other:
  assumes "x \<noteq> c"
  shows "conns (do_read rs ps ws w c) x = conns w x"
proof -
  from do_read_cases [of w c rs ps ws] obtain v where
    "do_read rs ps ws w c
             = close_connection_from_worker (set_conn (rearm_request_timer w c) c v) c
          \<or> do_read rs ps ws w c
             = epoll_ctl_mod (set_conn (rearm_request_timer w c) c v) (fd (conns w c))
                 \<lparr>events = [EPOLLIN, EPOLLET, EPOLLONESHOT], data_ptr = c\<rparr>"
    by blast
  then show ?thesis
    using assms by (auto simp: close_connection_other rearm_request_timer_other)
qed

lemma do_write_other:
  assumes "x \<noteq> c"
  shows "conns (do_write ws w c) x = conns w x"
proof -
  obtain e c' r where wl: "write_loop 0 ws (conns w c) = (e, c', r)"
    by (cases "write_loop 0 ws (conns w c)") auto
  show ?thesis
    using assms
    by (cases e)
       (simp_all add: do_write_def Let_def wl close_connection_other timer_heap_add_other)
qed

lemma do_read_dispatch_other:
  assumes "x \<noteq> c"
  shows "conns (do_read_dispatch ws w c) x = conns w x"
  using assms by (simp add: do_read_dispatch_def Let_def do_write_other timer_heap_remove_other)

section \<open>Records that hold a timer\<close>

lemma armed_ok_step:
  assumes "armed_ok w" "\<And>x. x \<noteq> c \<Longrightarrow> conns r x = conns w x" "armed (conns r c)"
  shows "armed_ok r"
  unfolding armed_ok_def
proof
  fix x show "armed (conns r x)"
    using assms by (cases "x = c") (simp_all add: armed_ok_def)
qed

lemma armed_FREE [simp]: "state v = STATE_FREE \<Longrightarrow> armed v"
  by (simp add: armed_def)

lemma armed_WRITING [simp]: "state v = STATE_WRITING \<Longrightarrow> armed v"
  by (simp add: armed_def)

lemma armed_timer: "timer_node v \<noteq> None \<Longrightarrow> state v \<noteq> STATE_CLOSING \<Longrightarrow> armed v"
  by (simp add: armed_def)

lemma close_connection_armed:
  assumes "armed_ok w"
  shows "armed_ok (close_connection_from_worker w c)"
proof (cases "fd (conns w c) = -1")
  case True
  then show ?thesis using assms by (simp add: close_connection_from_worker_def)
next
  case False
  show ?thesis
    using assms
  proof (rule armed_ok_step)
    show "x \<noteq> c \<Longrightarrow> conns (close_connection_from_worker w c) x = conns w x" for x
      by (rule close_connection_other)
    show "armed (conns (close_connection_from_worker w c) c)"
      using close_connection_state [OF False] by simp
  qed
qed

lemma do_read_armed:
  assumes "world_inv w" "free_ok w" "armed_ok w" "fd (conns w c) \<noteq> -1"
  shows "armed_ok (do_read rs ps ws w c)"
  using assms(3)
proof (rule armed_ok_step)
  show "x \<noteq> c \<Longrightarrow> conns (do_read rs ps ws w c) x = conns w x" for x
    by (rule do_read_other)
  define w3 where "w3 = rearm_request_timer w c"
  have room: "timer_node (conns w c) \<noteq> None \<or> length (heap w) < th_capacity w"
    using heap_room [OF assms(1,2)] by simp
  from rearm_request_timer_armed [OF assms(1,4) room]
  have t3: "timer_node (conns w3 c) \<noteq> None" unfolding w3_def by auto
  from do_read_cases [of w c rs ps ws] obtain v where
    v: "timer_node v = timer_node (conns w3 c)" "state v = STATE_READING" "fd v = fd (conns w c)"
    and d: "do_read rs ps ws w c = close_connection_from_worker (set_conn w3 c v) c
          \<or> do_read rs ps ws w c
             = epoll_ctl_mod (set_conn w3 c v) (fd (conns w c))
                 \<lparr>events = [EPOLLIN, EPOLLET, EPOLLONESHOT], data_ptr = c\<rparr>"
    unfolding w3_def by blast
  have fdv: "fd (conns (set_conn w3 c v) c) \<noteq> -1" using v assms(4) by simp
  from d show "armed (conns (do_read rs ps ws w c) c)"
  proof
    assume "do_read rs ps ws w c = close_connection_from_worker (set_conn w3 c v) c"
    then show ?thesis using close_connection_state [OF fdv] by simp
  next
    assume "do_read rs ps ws w c
             = epoll_ctl_mod (set_conn w3 c v) (fd (conns w c))
                 \<lparr>events = [EPOLLIN, EPOLLET, EPOLLONESHOT], data_ptr = c\<rparr>"
    then show ?thesis using v t3 by (simp add: armed_def)
  qed
qed

text \<open>
  \<open>do_write\<close> when the response has drained on a keep-alive connection: the connection
  is in \<open>STATE_KEEP_ALIVE\<close> and holds the keep-alive timer.
\<close>

lemma do_write_outcome:
  assumes "world_inv w" "free_ok w" "state (conns w c) = STATE_WRITING" "fd (conns w c) \<noteq> -1"
  shows "(state (conns (do_write ws w c) c) = STATE_FREE
          \<or> state (conns (do_write ws w c) c) = STATE_WRITING
            \<and> timer_node (conns (do_write ws w c) c) = None
          \<or> state (conns (do_write ws w c) c) = STATE_KEEP_ALIVE
            \<and> (\<exists>n. timer_node (conns (do_write ws w c) c) = Some n
                   \<and> expiry_time (nodes (do_write ws w c) n)
                       = deadline (clock w) KEEP_ALIVE_TIMEOUT_MS))"
proof -
  have tn: "timer_node (conns w c) = None"
    using assms(1,3) by (simp add: world_inv_def writing_ok_def)
  obtain e c' r where wl: "write_loop 0 ws (conns w c) = (e, c', r)"
    by (cases "write_loop 0 ws (conns w c)") auto
  from write_loop_shape [of 0 ws "conns w c"] wl
  obtain n where c': "c' = (conns w c)\<lparr>bytes_sent := n\<rparr>" by auto
  have fd1: "fd (conns (set_conn w c c') c) \<noteq> -1" using assms(4) by (simp add: c')
  note cl1 = close_connection_state [OF fd1]
  note cl0 = close_connection_state [OF assms(4)]
  define v where "v = c'\<lparr>state := STATE_KEEP_ALIVE, parser := http_parser_init,
                              bytes_read := 0, read_buf := [], bytes_sent := 0, url := []\<rparr>"
  define w2 where "w2 = epoll_ctl_mod (set_conn w c v) (fd c')
                 \<lparr>events = [EPOLLIN, EPOLLET, EPOLLONESHOT], data_ptr = c\<rparr>"
  have i2: "world_inv w2"
    unfolding w2_def using assms(1) tn by (simp add: world_inv_set_conn v_def c')
  have f2: "free_ok w2"
    unfolding w2_def using assms(2,3,4) by (simp add: free_ok_set_conn v_def c')
  have t2: "tinv w2" "timer_node (conns w2 c) = None"
    using i2 tn by (simp_all add: world_inv_def w2_def v_def c')
  from timer_heap_add_tinv [OF t2 heap_room [OF i2 f2], of KEEP_ALIVE_TIMEOUT_MS]
  obtain m where
    m: "timer_node (conns (snd (timer_heap_add w2 c KEEP_ALIVE_TIMEOUT_MS)) c) = Some m"
       "expiry_time (nodes (snd (timer_heap_add w2 c KEEP_ALIVE_TIMEOUT_MS)) m)
          = deadline (clock w2) KEEP_ALIVE_TIMEOUT_MS"
    by blast
  have ka: "state (conns (snd (timer_heap_add w2 c KEEP_ALIVE_TIMEOUT_MS)) c) = STATE_KEEP_ALIVE"
    by (simp add: w2_def v_def)
  have ck: "clock w2 = clock w" by (simp add: w2_def)
  show ?thesis
  proof (cases e)
    case Write_again
    then show ?thesis using assms(3) tn by (simp add: do_write_def Let_def wl cl0 c')
  next
    case Write_error
    then show ?thesis using cl1 by (simp add: do_write_def Let_def wl cl0)
  next
    case (Write_done a)
    then show ?thesis
      using cl1 ka m ck
      by (simp add: do_write_def Let_def wl cl0 v_def [symmetric] w2_def [symmetric])
  qed
qed

lemma do_write_armed:
  assumes "world_inv w" "free_ok w" "armed_ok w"
    and "state (conns w c) = STATE_WRITING" "fd (conns w c) \<noteq> -1"
  shows "armed_ok (do_write ws w c)"
  using assms(3)
proof (rule armed_ok_step)
  show "x \<noteq> c \<Longrightarrow> conns (do_write ws w c) x = conns w x" for x
    by (rule do_write_other)
  show "armed (conns (do_write ws w c) c)"
    using do_write_outcome [OF assms(1,2,4,5), of ws] by (auto simp: armed_def)
qed

lemma do_read_dispatch_armed:
  assumes "world_inv w" "free_ok w" "armed_ok w"
    and "state (conns w c) \<noteq> STATE_FREE"
  shows "armed_ok (do_read_dispatch ws w c)"
proof -
  have fdc: "fd (conns w c) \<noteq> -1" using assms(2,4) by (rule free_ok_fd)
  define w1 where "w1 = timer_heap_remove w c"
  have i1: "world_inv w1" unfolding w1_def using assms(1) by (rule timer_heap_remove_inv)
  have tn: "timer_node (conns w1 c) = None"
    unfolding w1_def using assms(1) by (intro timer_heap_remove_tinv) (simp add: world_inv_def)
  define w2 where "w2 = set_conn w1 c (handle_request_and_prepare_response (conns w1 c))"
  have e: "upd_conn w1 c handle_request_and_prepare_response = w2"
    by (simp add: w2_def upd_conn_def set_conn_def)
  have i2: "world_inv w2"
    unfolding w2_def using i1 tn by (intro world_inv_set_conn) simp_all
  have f2: "free_ok w2"
    unfolding w2_def using assms(2,4) fdc by (intro free_ok_set_conn) (simp_all add: w1_def)
  have s2: "state (conns w2 c) = STATE_WRITING" "fd (conns w2 c) \<noteq> -1"
    using fdc by (simp_all add: w2_def w1_def)
  have a2: "armed_ok w2"
    using assms(3)
  proof (rule armed_ok_step)
    show "x \<noteq> c \<Longrightarrow> conns w2 x = conns w x" for x
      by (simp add: w2_def w1_def timer_heap_remove_other)
    show "armed (conns w2 c)" using s2(1) by simp
  qed
  have "armed_ok (do_write ws w2 c)" using i2 f2 a2 s2 by (rule do_write_armed)
  then show ?thesis by (simp add: do_read_dispatch_def Let_def w1_def [symmetric] e)
qed

lemma expire_connection_armed:
  assumes "free_ok w" "armed_ok w"
  shows "armed_ok (expire_connection w c)"
proof (cases "state (conns w c) = STATE_FREE")
  case True
  then show ?thesis using assms by (simp add: expire_connection_def)
next
  case False
  have nc: "state (conns w c) \<noteq> STATE_CLOSING"
    using assms(2) by (simp add: armed_ok_def armed_def)
  have fdc: "fd (conns w c) \<noteq> -1" using assms(1) False by (rule free_ok_fd)
  define wc where "wc = upd_conn w c (\<lambda>c. c\<lparr>state := STATE_CLOSING\<rparr>)"
  have e: "expire_connection w c = close_connection_from_worker wc c"
    using False nc by (simp add: expire_connection_def wc_def)
  have fw: "fd (conns wc c) \<noteq> -1" using fdc by (simp add: wc_def)
  show ?thesis
    unfolding e using assms(2)
  proof (rule armed_ok_step)
    show "x \<noteq> c \<Longrightarrow> conns (close_connection_from_worker wc c) x = conns w x" for x
      by (simp add: close_connection_other wc_def)
    show "armed (conns (close_connection_from_worker wc c) c)"
      using close_connection_state [OF fw] by simp
  qed
qed

lemma process_expired_loop_worker_inv':
  assumes "worker_inv w"
  shows "\<exists>w'. process_expired_loop now w = Some w' \<and> worker_inv w'"
  using assms
proof (induction "length (heap w)" arbitrary: w rule: less_induct)
  case less
  have wi: "world_inv w" and fo: "free_ok w" and ao: "armed_ok w"
    using less.prems by (simp_all add: worker_inv_def)
  show ?case
  proof (cases "heap w \<noteq> [] \<and> expired now (expiry_time (nodes w (heap w ! 0)))")
    case False
    then have "process_expired_loop now w = Some w"
      by (subst process_expired_loop.simps) auto
    then show ?thesis using less.prems by auto
  next
    case True
    have t: "tinv w" using wi by (simp add: world_inv_def)
    have "heap w ! 0 \<in> set (heap w)" using True by simp
    then obtain c where c: "node_conn (nodes w (heap w ! 0)) = Some c"
      using t unfolding tinv_def back_ok_def by blast
    note e = expire_connection_inv [OF wi _ c]
    define w1 where "w1 = expire_connection w c"
    have step: "process_expired_loop now w = process_expired_loop now w1"
      using True c by (subst process_expired_loop.simps) (simp add: w1_def)
    have "world_inv w1" using e(1) True by (simp add: w1_def)
    moreover have "free_ok w1" unfolding w1_def using fo by (rule expire_connection_free_ok)
    moreover have "armed_ok w1" unfolding w1_def using fo ao by (rule expire_connection_armed)
    ultimately have inv1: "worker_inv w1" by (simp add: worker_inv_def)
    have len: "length (heap w1) < length (heap w)"
      using e(2) True by (simp add: w1_def)
    from less.hyps [OF len inv1] show ?thesis by (simp add: step)
  qed
qed

section \<open>The invariant of a worker\<close>

lemma armed_ok_fields [simp]:
  "armed_ok (w\<lparr>open_fds := o'\<rparr>) = armed_ok w"
  "armed_ok (w\<lparr>clock := t\<rparr>) = armed_ok w"
  "armed_ok (w\<lparr>free_connections_stack := s\<rparr>) = armed_ok w"
  "armed_ok (epoll_ctl_mod w d ev) = armed_ok w"
  "armed_ok (epoll_ctl_del w d) = armed_ok w"
  "armed_ok (epoll_ctl_add w d ev) = armed_ok w"
  "armed_ok (close_fd w d) = armed_ok w"
  by (simp_all add: armed_ok_def)

lemma pool_smaller_than_heap: "MAX_CONNECTIONS < TIMER_CAPACITY"
  by (simp add: MAX_CONNECTIONS_def TIMER_CAPACITY_def)

lemma worker_start_inv: "worker_inv (worker_start ns now)"
proof -
  have "world_inv (worker_start ns now)"
    by (simp add: world_inv_def tinv_def heap_wf_def back_ok_def fwd_ok_def
        pool_wf_def live_ok_def writing_ok_def worker_start_def conn0_def)
  moreover have "free_ok (worker_start ns now)"
    using pool_smaller_than_heap by (simp add: free_ok_def worker_start_def conn0_def)
  moreover have "armed_ok (worker_start ns now)"
    by (simp add: armed_ok_def armed_def worker_start_def conn0_def)
  ultimately show ?thesis by (simp add: worker_inv_def)
qed

text \<open>
  One accepted descriptor, with a record on the free stack. \<open>w2\<close> is the worker after
  \<open>connection_get\<close> and the assignments to the record. If \<open>epoll_ctl\<close> fails the record
  goes back to the pool; otherwise \<open>timer_heap_add\<close> finds a free slot and returns 0.
\<close>

lemma accept_step:
  assumes "worker_inv w" "client_fd \<noteq> -1" "free_connections_stack w = ci # rest"
    and "connection_get w = (Some ci, w1)"
    and "w2 = upd_conn w1 ci (\<lambda>c. c\<lparr>fd := client_fd, state := STATE_READING, last_active := clock w1\<rparr>)"
  shows "worker_inv (close_fd (connection_release w2 ci) client_fd)"
    and "worker_inv (snd (timer_heap_add (epoll_ctl_add w2 client_fd ev) ci ms))"
    and "fst (timer_heap_add (epoll_ctl_add w2 client_fd ev) ci ms) = 0"
    and "\<exists>n. conns (snd (timer_heap_add (epoll_ctl_add w2 client_fd ev) ci ms)) ci
               = (conns w2 ci)\<lparr>timer_node := Some n\<rparr>
            \<and> expiry_time (nodes (snd (timer_heap_add (epoll_ctl_add w2 client_fd ev) ci ms)) n)
                = deadline (clock w) ms"
    and "x \<noteq> ci \<Longrightarrow> conns w2 x = conns w x"
    and "state (conns w2 ci) = STATE_READING" "fd (conns w2 ci) = client_fd"
      "timer_node (conns w2 ci) = None" "bytes_read (conns w2 ci) = 0" "read_buf (conns w2 ci) = []"
      "response_iov0 (conns w2 ci) = response_iov0 (conns w ci)"
      "response_iov1 (conns w2 ci) = response_iov1 (conns w ci)"
    and "state (conns (connection_release w2 ci) ci) = STATE_FREE"
    and "epoll_reg w2 = epoll_reg w" "open_fds w2 = open_fds w"
proof -
  have wi: "world_inv w" and fo: "free_ok w" and ao: "armed_ok w"
    using assms(1) by (simp_all add: worker_inv_def)
  have free: "state (conns w ci) = STATE_FREE" and nin: "ci \<notin> set rest" and dr: "distinct rest"
    and ci: "ci < MAX_CONNECTIONS"
    and rest: "\<And>x. x \<in> set rest \<Longrightarrow> state (conns w x) = STATE_FREE \<and> x < MAX_CONNECTIONS"
    and fds: "\<And>x. state (conns w x) \<noteq> STATE_FREE \<Longrightarrow> fd (conns w x) \<noteq> -1 \<and> x < MAX_CONNECTIONS"
    and cap: "MAX_CONNECTIONS < th_capacity w"
    using fo assms(3) by (simp_all add: free_ok_def)
  have tn: "timer_node (conns w ci) = None"
    using wi free by (auto simp: world_inv_def live_ok_def)
  define wr where "wr = w\<lparr>free_connections_stack := rest\<rparr>"
  have w1: "w1 = upd_conn wr ci
             (\<lambda>c. c\<lparr>fd := -1, state := STATE_READING, keep_alive := False,
                     bytes_read := 0, read_buf := [], bytes_sent := 0, url := [],
                     timer_node := None, parser := http_parser_init\<rparr>)"
    using assms(4) by (simp add: connection_get_def assms(3) wr_def)
  have ir: "world_inv wr" using wi by (simp add: wr_def)
  have i1: "world_inv w1"
    unfolding w1 using ir tn by (intro world_inv_upd_conn) (simp_all add: wr_def)
  have t1: "timer_node (conns w1 ci) = None" by (simp add: w1)
  have i2: "world_inv w2"
    unfolding assms(5) using i1 t1 by (intro world_inv_upd_conn) simp_all
  have s2: "free_connections_stack w2 = rest" "th_capacity w2 = th_capacity w"
    "clock w2 = clock w"
    by (simp_all add: assms(5) w1 wr_def)
  show c2: "x \<noteq> ci \<Longrightarrow> conns w2 x = conns w x" for x by (simp add: assms(5) w1 wr_def)
  show t2: "state (conns w2 ci) = STATE_READING" "fd (conns w2 ci) = client_fd"
    "timer_node (conns w2 ci) = None" "bytes_read (conns w2 ci) = 0" "read_buf (conns w2 ci) = []"
    "response_iov0 (conns w2 ci) = response_iov0 (conns w ci)"
    "response_iov1 (conns w2 ci) = response_iov1 (conns w ci)"
    by (simp_all add: assms(5) w1 wr_def)
  show "epoll_reg w2 = epoll_reg w" "open_fds w2 = open_fds w"
    by (simp_all add: assms(5) w1 wr_def)
  have "state (conns w2 x) = STATE_FREE \<and> x < MAX_CONNECTIONS" if "x \<in> set rest" for x
  proof -
    have "x \<noteq> ci" using that nin by auto
    then show ?thesis using c2 [of x] rest [OF that] by simp
  qed
  moreover have "fd (conns w2 x) \<noteq> -1 \<and> x < MAX_CONNECTIONS"
    if "state (conns w2 x) \<noteq> STATE_FREE" for x
  proof (cases "x = ci")
    case True
    then show ?thesis using assms(2) ci t2(2) by simp
  next
    case False
    then show ?thesis using c2 [of x] fds [of x] that by simp
  qed
  ultimately have f2: "free_ok w2"
    using dr cap by (simp add: free_ok_def s2)
  have other_armed: "armed (conns w x)" for x using ao by (simp add: armed_ok_def)
  show rs: "state (conns (connection_release w2 ci) ci) = STATE_FREE"
    by (simp add: connection_release_def Let_def)
  have "world_inv (connection_release w2 ci)"
    using i2 t2(3) by (rule connection_release_world_inv)
  moreover have "free_ok (connection_release w2 ci)"
    using f2 by (rule connection_release_free_ok)
  moreover have "armed_ok (connection_release w2 ci)"
    using ao
  proof (rule armed_ok_step)
    show "x \<noteq> ci \<Longrightarrow> conns (connection_release w2 ci) x = conns w x" for x
      by (simp add: connection_release_other c2)
    show "armed (conns (connection_release w2 ci) ci)" using rs by simp
  qed
  ultimately show "worker_inv (close_fd (connection_release w2 ci) client_fd)"
    by (simp add: worker_inv_def)
  define w3 where "w3 = epoll_ctl_add w2 client_fd ev"
  have i3: "world_inv w3" and f3: "free_ok w3" using i2 f2 by (simp_all add: w3_def)
  have t3: "tinv w3" "timer_node (conns w3 ci) = None"
    using i3 t2(3) by (simp_all add: world_inv_def w3_def)
  from timer_heap_add_tinv [OF t3 heap_room [OF i3 f3], of ms]
  obtain n where
    n: "timer_heap_add w3 ci ms = (0, snd (timer_heap_add w3 ci ms))"
       "timer_node (conns (snd (timer_heap_add w3 ci ms)) ci) = Some n"
       "expiry_time (nodes (snd (timer_heap_add w3 ci ms)) n) = deadline (clock w3) ms"
    by blast
  show "fst (timer_heap_add (epoll_ctl_add w2 client_fd ev) ci ms) = 0"
    using n(1) unfolding w3_def by (metis fst_conv)
  have cn: "conns (snd (timer_heap_add w3 ci ms)) ci = (conns w2 ci)\<lparr>timer_node := Some n\<rparr>"
    using timer_heap_add_conns [of w3 ci ms ci] n(2) by (simp add: w3_def)
  have "clock w3 = clock w" by (simp add: w3_def s2)
  then show "\<exists>n. conns (snd (timer_heap_add (epoll_ctl_add w2 client_fd ev) ci ms)) ci
               = (conns w2 ci)\<lparr>timer_node := Some n\<rparr>
            \<and> expiry_time (nodes (snd (timer_heap_add (epoll_ctl_add w2 client_fd ev) ci ms)) n)
                = deadline (clock w) ms"
    using cn n(3) unfolding w3_def by auto
  have "world_inv (snd (timer_heap_add w3 ci ms))"
    using i3 t3(2) t2 assms(2) by (intro timer_heap_add_inv) (simp_all add: w3_def)
  moreover have "free_ok (snd (timer_heap_add w3 ci ms))" using f3 by simp
  moreover have "armed_ok (snd (timer_heap_add w3 ci ms))"
    using ao
  proof (rule armed_ok_step)
    show "x \<noteq> ci \<Longrightarrow> conns (snd (timer_heap_add w3 ci ms)) x = conns w x" for x
      by (simp add: timer_heap_add_other w3_def c2)
    show "armed (conns (snd (timer_heap_add w3 ci ms)) ci)"
      using t2(1) by (simp add: cn armed_def)
  qed
  ultimately show "worker_inv (snd (timer_heap_add (epoll_ctl_add w2 client_fd ev) ci ms))"
    by (simp add: worker_inv_def w3_def)
qed



lemma timer_heap_process_expired_inv:
  assumes "worker_inv w"
  shows "\<exists>w'. timer_heap_process_expired w = Some w' \<and> worker_inv w'"
  using process_expired_loop_worker_inv' [OF assms, of "clock w"]
  by (simp add: timer_heap_process_expired_def)

lemma do_read_worker_inv:
  assumes "worker_inv w" "state (conns w c) \<noteq> STATE_FREE"
  shows "worker_inv (do_read rs ps ws w c)"
proof -
  have wi: "world_inv w" and fo: "free_ok w" and ao: "armed_ok w"
    using assms(1) by (simp_all add: worker_inv_def)
  have fdc: "fd (conns w c) \<noteq> -1" using fo assms(2) by (rule free_ok_fd)
  show ?thesis
    using do_read_inv [OF wi fdc] do_read_free_ok [OF fo assms(2)] do_read_armed [OF wi fo ao fdc]
    by (simp add: worker_inv_def)
qed

lemma do_write_worker_inv:
  assumes "worker_inv w" "state (conns w c) = STATE_WRITING"
  shows "worker_inv (do_write ws w c)"
proof -
  have wi: "world_inv w" and fo: "free_ok w" and ao: "armed_ok w"
    using assms(1) by (simp_all add: worker_inv_def)
  have nf: "state (conns w c) \<noteq> STATE_FREE" using assms(2) by simp
  have fdc: "fd (conns w c) \<noteq> -1" using fo nf by (rule free_ok_fd)
  show ?thesis
    using do_write_inv [OF wi assms(2) fdc] do_write_free_ok [OF fo nf]
      do_write_armed [OF wi fo ao assms(2) fdc]
    by (simp add: worker_inv_def)
qed

lemma do_read_dispatch_worker_inv:
  assumes "worker_inv w" "state (conns w c) \<noteq> STATE_FREE"
  shows "worker_inv (do_read_dispatch ws w c)"
proof -
  have wi: "world_inv w" and fo: "free_ok w" and ao: "armed_ok w"
    using assms(1) by (simp_all add: worker_inv_def)
  have fdc: "fd (conns w c) \<noteq> -1" using fo assms(2) by (rule free_ok_fd)
  show ?thesis
    using do_read_dispatch_inv [OF wi fdc] do_read_dispatch_free_ok [OF fo assms(2)]
      do_read_dispatch_armed [OF wi fo ao assms(2)]
    by (simp add: worker_inv_def)
qed

lemma close_connection_worker_inv:
  assumes "worker_inv w"
  shows "worker_inv (close_connection_from_worker w c)"
  using assms
  by (simp add: worker_inv_def close_connection_world_inv close_connection_free_ok
      close_connection_armed)

lemma handle_connection_event_inv:
  assumes "worker_inv w"
  shows "worker_inv (handle_connection_event evs rs ps ws ws2 w c)"
proof (cases "state (conns w c) = STATE_CLOSING \<or> state (conns w c) = STATE_FREE")
  case True
  then show ?thesis using assms by (auto simp: handle_connection_event_def)
next
  case False
  have wi: "world_inv w" and fo: "free_ok w" and ao: "armed_ok w"
    using assms by (simp_all add: worker_inv_def)
  have nf: "state (conns w c) \<noteq> STATE_FREE" using False by simp
  have fdc: "fd (conns w c) \<noteq> -1" using fo nf by (rule free_ok_fd)
  define w1 where "w1 = upd_conn w c (\<lambda>c. c\<lparr>last_active := clock w\<rparr>)"
  have i1: "world_inv w1"
    unfolding w1_def using wi False fdc
    by (intro world_inv_upd_conn) (auto simp: world_inv_def live_ok_def writing_ok_def)
  have f1: "free_ok w1"
    unfolding w1_def using fo False fdc by (intro free_ok_upd_conn) simp_all
  have a1: "armed_ok w1"
    using ao
  proof (rule armed_ok_step)
    show "x \<noteq> c \<Longrightarrow> conns w1 x = conns w x" for x by (simp add: w1_def)
    show "armed (conns w1 c)" using ao by (simp add: w1_def armed_ok_def armed_def)
  qed
  have v1: "worker_inv w1" using i1 f1 a1 by (simp add: worker_inv_def)
  have c1: "state (conns w1 c) \<noteq> STATE_FREE" using nf by (simp add: w1_def)
  define w2 where "w2 = (if (state (conns w1 c) = STATE_READING
                            \<or> state (conns w1 c) = STATE_KEEP_ALIVE) \<and> EPOLLIN \<in> set evs
                       then do_read rs ps ws w1 c else w1)"
  have v2: "worker_inv w2"
    using v1 do_read_worker_inv [OF v1 c1] by (simp add: w2_def)
  define w3 where "w3 = (if state (conns w2 c) = STATE_WRITING \<and> EPOLLOUT \<in> set evs
                then do_write ws2 w2 c else w2)"
  have v3: "worker_inv w3"
    using v2 do_write_worker_inv [OF v2] by (simp add: w3_def)
  have "handle_connection_event evs rs ps ws ws2 w c =
      (if EPOLLERR \<in> set evs \<or> EPOLLHUP \<in> set evs then close_connection_from_worker w1 c else w3)"
    using False
    by (simp add: handle_connection_event_def Let_def w1_def [symmetric] w2_def [symmetric]
        w3_def [symmetric])
  then show ?thesis
    using v3 close_connection_worker_inv [OF v1] by simp
qed

section \<open>C3: bytes behind the end of the headers\<close>

lemma trailing_bytes_CR:
  assumes "trailing_bytes data i"
  shows "CR \<in> set data" "data \<noteq> []"
proof -
  have "take 4 (drop i data) = CRLF @ CRLF" and l: "i + 4 < length data"
    using assms by (simp_all add: trailing_bytes_def)
  then have "hd (drop i data) = CR"
    by (cases "drop i data") (auto simp: CRLF_def)
  moreover have "drop i data \<noteq> []" using l by simp
  ultimately have "CR \<in> set (drop i data)" by (metis hd_in_set)
  then show "CR \<in> set data" by (rule in_set_dropD)
  show "data \<noteq> []" using l by auto
qed

text \<open>
  \<open>do_read\<close> never dispatches: it leaves the connection closed, or open in
  \<open>STATE_READING\<close>, and in both cases with the response fields as they were.
\<close>

lemma do_read_outcome:
  "\<exists>v. state v = STATE_READING \<and> fd v = fd (conns w c)
       \<and> response_iov0 v = response_iov0 (conns w c)
       \<and> response_iov1 v = response_iov1 (conns w c)
       \<and> (do_read rs ps ws w c
             = close_connection_from_worker (set_conn (rearm_request_timer w c) c v) c
          \<or> do_read rs ps ws w c
             = epoll_ctl_mod (set_conn (rearm_request_timer w c) c v) (fd (conns w c))
                 \<lparr>events = [EPOLLIN, EPOLLET, EPOLLONESHOT], data_ptr = c\<rparr>)"
proof -
  define w3 where "w3 = rearm_request_timer w c"
  obtain ex c' rs' where rl: "read_loop 0 rs (conns w3 c) = (ex, c', rs')"
    by (cases "read_loop 0 rs (conns w3 c)") auto
  have e: "c' = fst (snd (read_loop 0 rs (conns w3 c)))" by (simp add: rl)
  have c': "state c' = STATE_READING" "fd c' = fd (conns w c)"
    "response_iov0 c' = response_iov0 (conns w c)" "response_iov1 c' = response_iov1 (conns w c)"
    unfolding e by (simp_all add: w3_def)
  define v where "v = snd (http_parser_execute ps c' (read_buf c'))"
  have v: "state v = STATE_READING" "fd v = fd (conns w c)"
    "response_iov0 v = response_iov0 (conns w c)" "response_iov1 v = response_iov1 (conns w c)"
    using c' by (simp_all add: v_def)
  have sc: "set_conn (set_conn w3 c c') c u = set_conn w3 c u" for u
    by (simp add: set_conn_def)
  have p: "do_read_parse ps ws (set_conn w3 c c') c = close_connection_from_worker (set_conn w3 c v) c
         \<or> do_read_parse ps ws (set_conn w3 c c') c =
             epoll_ctl_mod (set_conn w3 c v) (fd (conns w c))
               \<lparr>events = [EPOLLIN, EPOLLET, EPOLLONESHOT], data_ptr = c\<rparr>"
    using do_read_parse_cases [of "set_conn w3 c c'" c ps ws] c'
    by (simp add: v_def sc)
  have "do_read rs ps ws w c = close_connection_from_worker (set_conn w3 c c') c
      \<or> do_read rs ps ws w c = do_read_parse ps ws (set_conn w3 c c') c"
    by (cases ex) (simp_all add: do_read_def Let_def w3_def [symmetric] rl)
  then show ?thesis
  proof
    assume "do_read rs ps ws w c = close_connection_from_worker (set_conn w3 c c') c"
    then show ?thesis using c' unfolding w3_def by (intro exI [of _ c']) simp
  next
    assume "do_read rs ps ws w c = do_read_parse ps ws (set_conn w3 c c') c"
    then show ?thesis using p v unfolding w3_def by (intro exI [of _ v]) auto
  qed
qed

lemma do_read_no_dispatch:
  assumes "fd (conns w c) \<noteq> -1"
  shows "(state (conns (do_read rs ps ws w c) c) = STATE_FREE
            \<and> fd (conns (do_read rs ps ws w c) c) = -1
          \<or> state (conns (do_read rs ps ws w c) c) = STATE_READING
            \<and> fd (conns (do_read rs ps ws w c) c) = fd (conns w c))
       \<and> response_iov0 (conns (do_read rs ps ws w c) c) = response_iov0 (conns w c)
       \<and> response_iov1 (conns (do_read rs ps ws w c) c) = response_iov1 (conns w c)"
proof -
  from do_read_outcome [of w c rs ps ws] obtain v where
    v: "state v = STATE_READING" "fd v = fd (conns w c)"
       "response_iov0 v = response_iov0 (conns w c)" "response_iov1 v = response_iov1 (conns w c)"
    and d: "do_read rs ps ws w c
             = close_connection_from_worker (set_conn (rearm_request_timer w c) c v) c
          \<or> do_read rs ps ws w c
             = epoll_ctl_mod (set_conn (rearm_request_timer w c) c v) (fd (conns w c))
                 \<lparr>events = [EPOLLIN, EPOLLET, EPOLLONESHOT], data_ptr = c\<rparr>"
    by blast
  have pre: "fd (conns (set_conn (rearm_request_timer w c) c v) c) \<noteq> -1"
    "state (conns (set_conn (rearm_request_timer w c) c v) c) \<noteq> STATE_FREE"
    using v assms by simp_all
  from d show ?thesis
  proof
    assume "do_read rs ps ws w c
             = close_connection_from_worker (set_conn (rearm_request_timer w c) c v) c"
    then show ?thesis by (simp add: close_connection_conn [OF pre] v)
  next
    assume "do_read rs ps ws w c
             = epoll_ctl_mod (set_conn (rearm_request_timer w c) c v) (fd (conns w c))
                 \<lparr>events = [EPOLLIN, EPOLLET, EPOLLONESHOT], data_ptr = c\<rparr>"
    then show ?thesis by (simp add: v)
  qed
qed

text \<open>
  A script in which the callback refuses the headers, or in which the library reports
  an error of its own, leaves the parser with an error that \<open>do_read\<close> answers by closing.
\<close>

lemma rejects_headers_error:
  "rejects_headers es \<Longrightarrow> fst (run_callbacks es data conn) \<noteq> HPE_OK"
proof (induction es data conn rule: run_callbacks.induct)
  case (1 data conn)
  then show ?case by (simp add: rejects_headers_def)
next
  case (2 off len es data conn)
  then show ?case
    by (auto simp: rejects_headers_def split: prod.split)
next
  case (3 content_length nread ka es data conn)
  then show ?case
    by (auto simp: rejects_headers_def on_headers_complete_callback_def split: prod.split)
qed

lemma parser_error_after:
  assumes "(ps_errno ps \<noteq> HPE_OK \<and> ps_errno ps \<noteq> HPE_PAUSED) \<or> rejects_headers (ps_events ps)"
  shows "http_errno (parser (snd (http_parser_execute ps conn data))) \<noteq> HPE_OK
       \<and> http_errno (parser (snd (http_parser_execute ps conn data))) \<noteq> HPE_PAUSED"
proof -
  obtain e c1 where rc: "run_callbacks (ps_events ps) data conn = (e, c1)"
    by (cases "run_callbacks (ps_events ps) data conn") auto
  have np: "e \<noteq> HPE_PAUSED"
    using run_callbacks_not_paused [of "ps_events ps" data conn] rc by simp
  have "rejects_headers (ps_events ps) \<Longrightarrow> e \<noteq> HPE_OK"
    using rejects_headers_error [of "ps_events ps" data conn] rc by simp
  then show ?thesis
    using assms np by (auto simp: http_parser_execute_def rc)
qed

lemma do_read_parse_error:
  assumes "(ps_errno ps \<noteq> HPE_OK \<and> ps_errno ps \<noteq> HPE_PAUSED) \<or> rejects_headers (ps_events ps)"
  shows "do_read_parse ps ws w c =
           close_connection_from_worker
             (set_conn w c (snd (http_parser_execute ps (conns w c) (read_buf (conns w c))))) c"
proof -
  obtain n v where pe: "http_parser_execute ps (conns w c) (read_buf (conns w c)) = (n, v)"
    by (cases "http_parser_execute ps (conns w c) (read_buf (conns w c))") auto
  have "http_errno (parser v) \<noteq> HPE_OK \<and> http_errno (parser v) \<noteq> HPE_PAUSED"
    using parser_error_after [OF assms, of "conns w c" "read_buf (conns w c)"] pe by simp
  then show ?thesis by (simp add: do_read_parse_def pe Let_def)
qed

text \<open>
  One chunk that fits the buffer: the read loop closes (the scan for repeated bytes), or
  it ends with the chunk appended to the buffer and \<open>do_read\<close> goes on to the parser.
\<close>

lemma read_loop_one_chunk:
  assumes "data \<noteq> []" "bytes_read conn + length data \<le> BUFFER_SIZE"
  shows "\<exists>ex rs'. read_loop 0 [Recv_data data] conn =
           (ex, conn\<lparr>read_buf := read_buf conn @ data,
                     bytes_read := bytes_read conn + length data\<rparr>, rs')
         \<and> (ex = Loop_close \<or> ex = Loop_done (-1) EAGAIN \<or> ex = Loop_done (int (length data)) E_NONE)"
proof -
  define conn1 where "conn1 = conn\<lparr>read_buf := read_buf conn @ data,
                     bytes_read := bytes_read conn + length data\<rparr>"
  have len: "0 < length data" using assms(1) by simp
  have sp1: "BUFFER_SIZE - bytes_read conn \<noteq> 0" "length data \<le> BUFFER_SIZE - bytes_read conn"
    using assms(2) len by arith+
  have sp: "BUFFER_SIZE - bytes_read conn \<noteq> 0" "take (BUFFER_SIZE - bytes_read conn) data = data"
    "drop (BUFFER_SIZE - bytes_read conn) data = []" "0 < length data"
    using sp1 len by simp_all
  have rc: "recv [Recv_data data] (BUFFER_SIZE - bytes_read conn) = (int (length data), E_NONE, data, [])"
    by (simp add: sp)
  have again: "read_loop 1 [] conn1 = (Loop_done (-1) EAGAIN, conn1, [])"
    if "bytes_read conn1 < BUFFER_SIZE"
    using that
    by (subst read_loop.simps) (simp add: Let_def MAX_READ_ATTEMPTS_def)
  have small: "\<not> MAX_REQUEST_SIZE < bytes_read conn + length data"
    using assms(2) by (simp add: MAX_REQUEST_SIZE_def BUFFER_SIZE_def)
  have "read_loop 0 [Recv_data data] conn =
          (if bytes_read conn1 > 1024 \<and> too_many_repeats (read_buf conn1) then (Loop_close, conn1, [])
           else if bytes_read conn1 < BUFFER_SIZE then read_loop 1 [] conn1
           else (Loop_done (int (length data)) E_NONE, conn1, []))"
    apply (subst read_loop.simps)
    apply (simp only: Let_def rc prod.case sp(1) if_False)
    using sp(4) small
    apply (simp add: conn1_def MAX_READ_ATTEMPTS_def)
    done
  then show ?thesis
    using again by (auto simp: conn1_def)
qed

lemma do_read_unparsed_closes:
  assumes "fd (conns w c) \<noteq> -1" "data \<noteq> []"
    and "bytes_read (conns w c) + length data \<le> BUFFER_SIZE"
    and "(ps_errno ps \<noteq> HPE_OK \<and> ps_errno ps \<noteq> HPE_PAUSED) \<or> rejects_headers (ps_events ps)
         \<or> (ps_parsed ps \<noteq> bytes_read (conns w c) + length data \<and> ps_errno ps \<noteq> HPE_PAUSED)"
  shows "state (conns (do_read [Recv_data data] ps ws w c) c) = STATE_FREE
       \<and> fd (conns (do_read [Recv_data data] ps ws w c) c) = -1"
proof -
  define w3 where "w3 = rearm_request_timer w c"
  define conn1 where "conn1 = (conns w3 c)\<lparr>read_buf := read_buf (conns w3 c) @ data,
                     bytes_read := bytes_read (conns w3 c) + length data\<rparr>"
  have b3: "bytes_read (conns w3 c) + length data \<le> BUFFER_SIZE"
    using assms(3) by (simp add: w3_def)
  from read_loop_one_chunk [OF assms(2) b3] obtain ex rs' where
    rl: "read_loop 0 [Recv_data data] (conns w3 c) = (ex, conn1, rs')"
    and ex: "ex = Loop_close \<or> ex = Loop_done (-1) EAGAIN \<or> ex = Loop_done (int (length data)) E_NONE"
    unfolding conn1_def by blast
  define w4 where "w4 = set_conn w3 c conn1"
  have w4: "bytes_read (conns w4 c) = bytes_read (conns w c) + length data"
    "fd (conns w4 c) = fd (conns w c)" "state (conns w4 c) = STATE_READING"
    by (simp_all add: w4_def conn1_def w3_def)
  define v where "v = snd (http_parser_execute ps (conns w4 c) (read_buf (conns w4 c)))"
  have pc: "do_read_parse ps ws w4 c = close_connection_from_worker (set_conn w4 c v) c"
  proof (cases "(ps_errno ps \<noteq> HPE_OK \<and> ps_errno ps \<noteq> HPE_PAUSED) \<or> rejects_headers (ps_events ps)")
    case True
    then show ?thesis unfolding v_def by (rule do_read_parse_error)
  next
    case False
    then have "ps_parsed ps \<noteq> bytes_read (conns w4 c)" "ps_errno ps \<noteq> HPE_PAUSED"
      using assms(4) w4(1) by auto
    then show ?thesis unfolding v_def by (rule do_read_parse_unparsed)
  qed
  have len: "0 < length data" using assms(2) by simp
  have "do_read [Recv_data data] ps ws w c = close_connection_from_worker w4 c
      \<or> do_read [Recv_data data] ps ws w c = do_read_parse ps ws w4 c"
    using ex len
    by (auto simp: do_read_def Let_def w3_def [symmetric] rl w4_def)
  then have "do_read [Recv_data data] ps ws w c = close_connection_from_worker w4 c
      \<or> do_read [Recv_data data] ps ws w c = close_connection_from_worker (set_conn w4 c v) c"
    using pc by auto
  moreover have "state (conns (close_connection_from_worker w4 c) c) = STATE_FREE
       \<and> fd (conns (close_connection_from_worker w4 c) c) = -1"
    using assms(1) w4 by (subst (1 2) close_connection_conn) simp_all
  moreover have "state (conns (close_connection_from_worker (set_conn w4 c v) c) c) = STATE_FREE
       \<and> fd (conns (close_connection_from_worker (set_conn w4 c v) c) c) = -1"
    using assms(1) w4 by (subst (1 2) close_connection_conn) (simp_all add: v_def)
  ultimately show ?thesis by auto
qed

lemma length_pipelined_request: "length pipelined_request = 54"
  by (simp add: pipelined_request_def cl0_request_def CRLF_def)

text \<open>
  C3, as stated, fails in the base worker. One read delivers a request that declares
  \<open>Content-Length: 0\<close> and, behind its \<open>\r\n\r\n\<close> at offset 33, the first line of a second
  request. The callback accepts the headers, the library consumes all 54 bytes without
  complaint, and \<open>do_read\<close> does not treat the 17 trailing bytes as an error: the
  connection stays open in \<open>STATE_READING\<close>, re-armed for reading, with no response
  prepared.
\<close>

theorem pipelined_bytes_not_rejected:
  "trailing_bytes pipelined_request 33
   \<and> length pipelined_request = 54
   \<and> \<not> rejects_headers (ps_events pipelined_parse)
   \<and> fst (run_callbacks (ps_events pipelined_parse) pipelined_request (conns w_reading 0)) = HPE_OK
   \<and> state (conns (do_read [Recv_data pipelined_request] pipelined_parse [] w_reading 0) 0)
       = STATE_READING
   \<and> fd (conns (do_read [Recv_data pipelined_request] pipelined_parse [] w_reading 0) 0) = 5
   \<and> open_fds (do_read [Recv_data pipelined_request] pipelined_parse [] w_reading 0) = {5}
   \<and> epoll_reg (do_read [Recv_data pipelined_request] pipelined_parse [] w_reading 0) 5
       = Some \<lparr>events = [EPOLLIN, EPOLLET, EPOLLONESHOT], data_ptr = 0\<rparr>
   \<and> iov_len (response_iov0
        (conns (do_read [Recv_data pipelined_request] pipelined_parse [] w_reading 0) 0)) = 0"
proof -
  note len = length_pipelined_request
  have tb: "trailing_bytes pipelined_request 33"
    by (simp add: trailing_bytes_def pipelined_request_def cl0_request_def CRLF_def)
  have rh: "\<not> rejects_headers (ps_events pipelined_parse)"
    by (simp add: rejects_headers_def pipelined_parse_def)
  define w where "w = set_conn (rearm_request_timer w_reading 0) 0
                ((conns (rearm_request_timer w_reading 0) 0)
                   \<lparr>read_buf := read_buf (conns w_reading 0) @ pipelined_request,
                    bytes_read := bytes_read (conns w_reading 0) + length pipelined_request\<rparr>)"
  have dr: "do_read [Recv_data pipelined_request] pipelined_parse [] w_reading 0
            = do_read_parse pipelined_parse [] w 0"
    unfolding w_def
    by (intro do_read_single_chunk)
       (simp_all add: w_reading_facts len BUFFER_SIZE_def,
        simp add: pipelined_request_def cl0_request_def)
  have w: "state (conns w 0) = STATE_READING" "read_buf (conns w 0) = pipelined_request"
    "bytes_read (conns w 0) = 54" "fd (conns w 0) = 5" "open_fds w = {5}"
    "response_iov0 (conns w 0) = \<lparr>iov_base = [], iov_len = 0\<rparr>"
    "epoll_reg w 5 = Some \<lparr>events = [EPOLLIN, EPOLLET, EPOLLONESHOT], data_ptr = 0\<rparr>"
    by (simp_all add: w_def w_reading_facts len) (simp add: w_reading_def)
  have cb: "fst (run_callbacks (ps_events pipelined_parse) pipelined_request c) = HPE_OK" for c
    by (simp add: pipelined_parse_def pipelined_request_def cl0_request_def
        on_url_callback_def on_headers_complete_callback_def validate_url_def URL_MAX_LEN_def
        is_valid_url_char_def isalnum_def c_str_def CRLF_def CR_def LF_def NUL_def)
  have cbw: "fst (run_callbacks (ps_events pipelined_parse) (read_buf (conns w 0)) (conns w 0)) = HPE_OK"
    unfolding w(2) by (rule cb)
  have dp: "do_read_parse pipelined_parse [] w 0 =
           epoll_ctl_mod
             (set_conn w 0 (snd (http_parser_execute pipelined_parse (conns w 0) (read_buf (conns w 0)))))
             (fd (conns w 0))
             \<lparr>events = [EPOLLIN, EPOLLET, EPOLLONESHOT], data_ptr = 0\<rparr>"
    by (rule do_read_parse_rearm [OF w(1) cbw])
       (simp_all add: pipelined_parse_def w MAX_REQUEST_SIZE_def)
  have reg: "epoll_reg (epoll_ctl_mod (set_conn w 0 v) 5 ev) 5 = Some ev" for v ev
    by (simp add: epoll_ctl_mod_def w)
  show ?thesis
    by (simp add: dr dp len tb rh cb w reg)
qed

text \<open>
  C3, amended. For every single read that fits the read buffer and holds \<open>\r\n\r\n\<close>
  followed by further bytes, no response is dispatched, in both workers. The optimized
  worker closes the connection: its validator refuses the chunk before the end of the
  headers is looked for. The base worker closes the connection whenever the parser ends
  with an error, which the headers-complete callback forces for every request whose
  content length is not 0 (so for every request that declares none), or leaves bytes of
  the read unconsumed. Only trailing bytes that the parser consumes, as the start of a
  further request after one that declares \<open>Content-Length: 0\<close>, are not treated as an
  error: the connection then stays open in \<open>STATE_READING\<close>.
\<close>

theorem trailing_bytes_never_dispatched:
  assumes "trailing_bytes data i" and "fd (conns w c) \<noteq> -1"
    and "bytes_read (conns w c) + length data \<le> BUFFER_SIZE"
  shows "fst (do_read_optimized [Recv_data data] ps w c) = -1
       \<and> state (conns (snd (do_read_optimized [Recv_data data] ps w c)) c) = STATE_FREE
       \<and> fd (conns (snd (do_read_optimized [Recv_data data] ps w c)) c) = -1
       \<and> response_iov0 (conns (snd (do_read_optimized [Recv_data data] ps w c)) c)
           = response_iov0 (conns w c)
       \<and> response_iov1 (conns (snd (do_read_optimized [Recv_data data] ps w c)) c)
           = response_iov1 (conns w c)
       \<and> (state (conns (do_read [Recv_data data] ps ws w c) c) = STATE_FREE
            \<and> fd (conns (do_read [Recv_data data] ps ws w c) c) = -1
          \<or> state (conns (do_read [Recv_data data] ps ws w c) c) = STATE_READING
            \<and> fd (conns (do_read [Recv_data data] ps ws w c) c) = fd (conns w c))
       \<and> response_iov0 (conns (do_read [Recv_data data] ps ws w c) c) = response_iov0 (conns w c)
       \<and> response_iov1 (conns (do_read [Recv_data data] ps ws w c) c) = response_iov1 (conns w c)
       \<and> ((ps_errno ps \<noteq> HPE_OK \<and> ps_errno ps \<noteq> HPE_PAUSED) \<or> rejects_headers (ps_events ps)
             \<or> (ps_parsed ps \<noteq> bytes_read (conns w c) + length data \<and> ps_errno ps \<noteq> HPE_PAUSED)
           \<longrightarrow> state (conns (do_read [Recv_data data] ps ws w c) c) = STATE_FREE
               \<and> fd (conns (do_read [Recv_data data] ps ws w c) c) = -1)"
proof -
  note tb = trailing_bytes_CR [OF assms(1)]
  have len: "0 < length data" using tb(2) by simp
  have sp: "bytes_read (conns w c) < BUFFER_SIZE" "length data \<le> BUFFER_SIZE - bytes_read (conns w c)"
    using assms(3) len by arith+
  have t: "take (BUFFER_SIZE - bytes_read (conns w c)) data = data" using sp(2) by simp
  have ne: "take (BUFFER_SIZE - bytes_read (conns w c)) data \<noteq> []" unfolding t by (rule tb(2))
  have inv: "\<not> simd_validate_url_chars (take (BUFFER_SIZE - bytes_read (conns w c)) data)"
    unfolding t using tb(1) simd_validate_rejects [of data] by blast
  note opt = do_read_optimized_invalid [OF assms(2) sp(1) ne inv, of "[]" ps]
  note base = do_read_no_dispatch [OF assms(2), of "[Recv_data data]" ps ws]
  have cl: "state (conns (do_read [Recv_data data] ps ws w c) c) = STATE_FREE
               \<and> fd (conns (do_read [Recv_data data] ps ws w c) c) = -1"
    if "(ps_errno ps \<noteq> HPE_OK \<and> ps_errno ps \<noteq> HPE_PAUSED) \<or> rejects_headers (ps_events ps)
             \<or> (ps_parsed ps \<noteq> bytes_read (conns w c) + length data \<and> ps_errno ps \<noteq> HPE_PAUSED)"
    using assms(2) tb(2) assms(3) that by (rule do_read_unparsed_closes)
  show ?thesis
    using opt(1,2,3,4,5) base cl by blast
qed

theorem trailing_bytes_never_dispatched_witness:
  "trailing_bytes pipelined_plain 23
   \<and> fd (conns w_reading 0) \<noteq> -1
   \<and> bytes_read (conns w_reading 0) + length pipelined_plain \<le> BUFFER_SIZE
   \<and> rejects_headers (ps_events minimal_parse)
   \<and> fst (do_read_optimized [Recv_data pipelined_plain] minimal_parse w_reading 0) = -1
   \<and> state (conns (snd (do_read_optimized [Recv_data pipelined_plain] minimal_parse w_reading 0)) 0)
       = STATE_FREE
   \<and> state (conns (do_read [Recv_data pipelined_plain] minimal_parse [] w_reading 0) 0) = STATE_FREE
   \<and> fd (conns (do_read [Recv_data pipelined_plain] minimal_parse [] w_reading 0) 0) = -1
   \<and> iov_len (response_iov0
        (conns (do_read [Recv_data pipelined_plain] minimal_parse [] w_reading 0) 0)) = 0"
proof -
  have h: "trailing_bytes pipelined_plain 23" "fd (conns w_reading 0) \<noteq> -1"
    "bytes_read (conns w_reading 0) + length pipelined_plain \<le> BUFFER_SIZE"
    "rejects_headers (ps_events minimal_parse)"
    by (simp_all add: trailing_bytes_def pipelined_plain_def minimal_request_def CRLF_def
        w_reading_facts BUFFER_SIZE_def rejects_headers_def minimal_parse_def ULLONG_MAX_def)
  show ?thesis
    using trailing_bytes_never_dispatched [OF h(1,2,3), of minimal_parse "[]"] h
    by (simp add: w_reading_facts)
qed

section \<open>C6: exhausted resources during connection setup\<close>

lemma accept_one:
  assumes "free_connections_stack w = ci # rest"
  shows "\<exists>w1. connection_get (w\<lparr>open_fds := insert d (open_fds w)\<rparr>) = (Some ci, w1)
          \<and> handle_new_connection [Accept_fd d ok] w =
              (if ok
               then snd (timer_heap_add
                      (epoll_ctl_add
                         (upd_conn w1 ci
                            (\<lambda>c. c\<lparr>fd := d, state := STATE_READING, last_active := clock w1\<rparr>))
                         d \<lparr>events = [EPOLLIN, EPOLLET, EPOLLONESHOT], data_ptr = ci\<rparr>)
                      ci REQUEST_TIMEOUT_MS)
               else close_fd
                      (connection_release
                         (upd_conn w1 ci
                            (\<lambda>c. c\<lparr>fd := d, state := STATE_READING, last_active := clock w1\<rparr>)) ci)
                      d)"
  using assms
  by (simp add: handle_new_connection_def MAX_ACCEPTS_PER_LOOP_def connection_get_def Let_def)




lemma accept_in_worker:
  assumes "worker_inv w" "d \<noteq> -1" "free_connections_stack w = ci # rest"
  shows "state (conns (handle_new_connection [Accept_fd d True] w) ci) = STATE_READING"
    and "fd (conns (handle_new_connection [Accept_fd d True] w) ci) = d"
    and "epoll_reg (handle_new_connection [Accept_fd d True] w) d
           = Some \<lparr>events = [EPOLLIN, EPOLLET, EPOLLONESHOT], data_ptr = ci\<rparr>"
    and "\<exists>n. timers_of (handle_new_connection [Accept_fd d True] w) ci = {n}
            \<and> timer_node (conns (handle_new_connection [Accept_fd d True] w) ci) = Some n
            \<and> expiry_time (nodes (handle_new_connection [Accept_fd d True] w) n)
                = deadline (clock w) REQUEST_TIMEOUT_MS"
    and "bytes_read (conns (handle_new_connection [Accept_fd d True] w) ci) = 0"
    and "read_buf (conns (handle_new_connection [Accept_fd d True] w) ci) = []"
    and "worker_inv (handle_new_connection [Accept_fd d True] w)"
proof -
  define w0 where "w0 = w\<lparr>open_fds := insert d (open_fds w)\<rparr>"
  from accept_one [OF assms(3), of d True] obtain w1 where
    g: "connection_get w0 = (Some ci, w1)"
    and h: "handle_new_connection [Accept_fd d True] w =
          snd (timer_heap_add
                 (epoll_ctl_add
                    (upd_conn w1 ci
                       (\<lambda>c. c\<lparr>fd := d, state := STATE_READING, last_active := clock w1\<rparr>))
                    d \<lparr>events = [EPOLLIN, EPOLLET, EPOLLONESHOT], data_ptr = ci\<rparr>)
                 ci REQUEST_TIMEOUT_MS)"
    unfolding w0_def by auto
  define w2 where
    "w2 = upd_conn w1 ci (\<lambda>c. c\<lparr>fd := d, state := STATE_READING, last_active := clock w1\<rparr>)"
  define r where "r = handle_new_connection [Accept_fd d True] w"
  have r: "r = snd (timer_heap_add
                 (epoll_ctl_add w2 d \<lparr>events = [EPOLLIN, EPOLLET, EPOLLONESHOT], data_ptr = ci\<rparr>)
                 ci REQUEST_TIMEOUT_MS)"
    by (simp add: r_def h w2_def)
  have i0: "worker_inv w0" using assms(1) by (simp add: worker_inv_def w0_def)
  have s0: "free_connections_stack w0 = ci # rest" using assms(3) by (simp add: w0_def)
  note st2 = accept_step(2) [OF i0 assms(2) s0 g w2_def,
      where ev = "\<lparr>events = [EPOLLIN, EPOLLET, EPOLLONESHOT], data_ptr = ci\<rparr>"
        and ms = REQUEST_TIMEOUT_MS]
  note st4 = accept_step(4) [OF i0 assms(2) s0 g w2_def,
      where ev = "\<lparr>events = [EPOLLIN, EPOLLET, EPOLLONESHOT], data_ptr = ci\<rparr>"
        and ms = REQUEST_TIMEOUT_MS]
  note stf = accept_step(6,7,9,10) [OF i0 assms(2) s0 g w2_def]
  have v: "worker_inv r" using st2 by (simp add: r)
  from st4 obtain n where
    n: "conns r ci = (conns w2 ci)\<lparr>timer_node := Some n\<rparr>"
       "expiry_time (nodes r n) = deadline (clock w0) REQUEST_TIMEOUT_MS"
    unfolding r by blast
  have t: "tinv r" using v by (simp add: worker_inv_def world_inv_def)
  have tn: "timer_node (conns r ci) = Some n" by (simp add: n(1))
  have "timers_of r ci = {n}" by (simp add: tinv_timers_of [OF t] tn)
  moreover have "clock w0 = clock w" by (simp add: w0_def)
  ultimately have e: "\<exists>n. timers_of r ci = {n} \<and> timer_node (conns r ci) = Some n
      \<and> expiry_time (nodes r n) = deadline (clock w) REQUEST_TIMEOUT_MS"
    using n(2) tn by auto
  have reg: "epoll_reg r d = Some \<lparr>events = [EPOLLIN, EPOLLET, EPOLLONESHOT], data_ptr = ci\<rparr>"
    by (simp add: r epoll_ctl_add_def)
  show "state (conns (handle_new_connection [Accept_fd d True] w) ci) = STATE_READING"
    "fd (conns (handle_new_connection [Accept_fd d True] w) ci) = d"
    "epoll_reg (handle_new_connection [Accept_fd d True] w) d
           = Some \<lparr>events = [EPOLLIN, EPOLLET, EPOLLONESHOT], data_ptr = ci\<rparr>"
    "\<exists>n. timers_of (handle_new_connection [Accept_fd d True] w) ci = {n}
            \<and> timer_node (conns (handle_new_connection [Accept_fd d True] w) ci) = Some n
            \<and> expiry_time (nodes (handle_new_connection [Accept_fd d True] w) n)
                = deadline (clock w) REQUEST_TIMEOUT_MS"
    "bytes_read (conns (handle_new_connection [Accept_fd d True] w) ci) = 0"
    "read_buf (conns (handle_new_connection [Accept_fd d True] w) ci) = []"
    "worker_inv (handle_new_connection [Accept_fd d True] w)"
    using e reg v stf unfolding r_def [symmetric] by (simp_all add: n(1))
qed


lemma w_start_stack: "free_connections_stack w_start = 16383 # rev [0..<16383]"
proof -
  have "[0..<Suc 16383] = [0..<16383] @ [16383]" by (rule upt_Suc_append) simp
  moreover have "MAX_CONNECTIONS = Suc 16383" by (simp add: MAX_CONNECTIONS_def)
  ultimately show ?thesis by (simp add: w_start_def worker_start_def)
qed

lemma worker_inv_w_start: "worker_inv w_start"
  unfolding w_start_def by (rule worker_start_inv)

lemma w_heap_full_wf: "world_inv w_heap_full"
  by (simp add: world_inv_def tinv_def heap_wf_def back_ok_def fwd_ok_def pool_wf_def
      live_ok_def writing_ok_def w_heap_full_def w_reading_def conn0_def)

lemma w_heap_full_reached:
  "handle_new_connection [Accept_fd 5 True] (world0\<lparr>th_capacity := 1, free_head := [0]\<rparr>)
     = w_heap_full"
  by (simp add: w_heap_full_def w_reading_def handle_new_connection_def world0_def
      connection_get_def upd_conn_def upd_node_def epoll_ctl_add_def timer_heap_add_def
      timer_node_pool_get_def sift_up.simps MAX_ACCEPTS_PER_LOOP_def REQUEST_TIMEOUT_MS_def
      deadline_def conn0_def http_parser_init_def Let_def)






section \<open>C5: the timer entries of a connection\<close>

lemma do_write_optimized_eagain:
  assumes "bytes_sent (conns w c)
             < iov_len (response_iov0 (conns w c)) + iov_len (response_iov1 (conns w c))"
    and "iov_len (response_iov0 (conns w c)) + iov_len (response_iov1 (conns w c)) \<le> 65536"
  shows "snd (do_write_optimized (Wv_eagain # ws) w c)
           = epoll_ctl_mod w (fd (conns w c))
               \<lparr>events = [EPOLLOUT, EPOLLET, EPOLLONESHOT, EPOLLRDHUP], data_ptr = c\<rparr>"
proof -
  have wl: "write_loop_optimized 0 (Wv_eagain # ws) (conns w c) = (Write_again, conns w c, ws)"
    using assms(1)
    by (subst write_loop_optimized.simps) (simp add: MAX_WRITE_ATTEMPTS_OPT_def Let_def)
  have sc: "set_conn w c (conns w c) = w" by (simp add: set_conn_def)
  show ?thesis using assms(2) by (simp add: do_write_optimized_def Let_def wl sc)
qed

text \<open>The two statements of the dispatch branch that precede the write.\<close>

lemma dispatch_prepared:
  assumes "worker_inv w" "state (conns w c) \<noteq> STATE_FREE"
  shows "worker_inv (upd_conn (timer_heap_remove w c) c handle_request_and_prepare_response)"
    and "state (conns (upd_conn (timer_heap_remove w c) c handle_request_and_prepare_response) c)
           = STATE_WRITING"
    and "timer_node (conns (upd_conn (timer_heap_remove w c) c handle_request_and_prepare_response) c)
           = None"
    and "do_read_dispatch ws w c
           = do_write ws (upd_conn (timer_heap_remove w c) c handle_request_and_prepare_response) c"
proof -
  have wi: "world_inv w" and fo: "free_ok w" and ao: "armed_ok w"
    using assms(1) by (simp_all add: worker_inv_def)
  have fdc: "fd (conns w c) \<noteq> -1" using fo assms(2) by (rule free_ok_fd)
  define w1 where "w1 = timer_heap_remove w c"
  define w2 where "w2 = upd_conn w1 c handle_request_and_prepare_response"
  have i1: "world_inv w1" unfolding w1_def using wi by (rule timer_heap_remove_inv)
  have tn: "timer_node (conns w1 c) = None"
    unfolding w1_def using wi by (intro timer_heap_remove_tinv) (simp add: world_inv_def)
  have f1: "free_ok w1" using fo by (simp add: w1_def)
  have s1: "state (conns w1 c) \<noteq> STATE_FREE" "fd (conns w1 c) \<noteq> -1"
    using assms(2) fdc by (simp_all add: w1_def)
  have i2: "world_inv w2"
    unfolding w2_def using i1 tn by (intro world_inv_upd_conn) simp_all
  have f2: "free_ok w2"
    unfolding w2_def using f1 s1 by (intro free_ok_upd_conn) simp_all
  have s2: "state (conns w2 c) = STATE_WRITING" by (simp add: w2_def)
  have a2: "armed_ok w2"
    using ao
  proof (rule armed_ok_step)
    show "x \<noteq> c \<Longrightarrow> conns w2 x = conns w x" for x
      by (simp add: w2_def w1_def timer_heap_remove_other)
    show "armed (conns w2 c)" using s2 by simp
  qed
  show "worker_inv (upd_conn (timer_heap_remove w c) c handle_request_and_prepare_response)"
    using i2 f2 a2 by (simp add: worker_inv_def w2_def w1_def)
  show "state (conns (upd_conn (timer_heap_remove w c) c handle_request_and_prepare_response) c)
           = STATE_WRITING"
    by simp
  show "timer_node (conns (upd_conn (timer_heap_remove w c) c handle_request_and_prepare_response) c)
           = None"
    using tn by (simp add: w1_def)
  show "do_read_dispatch ws w c
           = do_write ws (upd_conn (timer_heap_remove w c) c handle_request_and_prepare_response) c"
    by (simp add: do_read_dispatch_def Let_def)
qed

text \<open>A write that drains the whole response of a keep-alive connection at once.\<close>

lemma do_write_drained:
  assumes "keep_alive (conns w c)" "bytes_sent (conns w c) = 0"
    and "0 < iov_len (response_iov0 (conns w c)) + iov_len (response_iov1 (conns w c))"
    and "iov_len (response_iov0 (conns w c)) + iov_len (response_iov1 (conns w c)) \<le> 65536"
    and "iov_len (response_iov0 (conns w c)) + iov_len (response_iov1 (conns w c)) \<le> k"
  shows "state (conns (do_write (Wv_bytes k # ws) w c) c) = STATE_KEEP_ALIVE"
proof -
  define total where
    "total = iov_len (response_iov0 (conns w c)) + iov_len (response_iov1 (conns w c))"
  have lt: "bytes_sent (conns w c) < total" using assms(2,3) by (simp add: total_def)
  have sm: "sum_list (write_iov (conns w c)) = total"
    using write_iov_total [of "conns w c"] lt assms(2) by (simp add: total_def)
  have mn: "min k total = total" using assms(5) by (simp add: total_def)
  define c1 where "c1 = (conns w c)\<lparr>bytes_sent := total\<rparr>"
  have l1: "write_loop (Suc 0) ws c1 = (Write_done (Suc 0), c1, ws)"
    by (subst write_loop.simps) (simp add: c1_def total_def Let_def)
  have l0: "write_loop 0 (Wv_bytes k # ws) (conns w c) = (Write_done 1, c1, ws)"
    using lt
    by (subst write_loop.simps)
       (simp add: Let_def MAX_WRITE_ATTEMPTS_def sm mn total_def [symmetric] assms(2)
          c1_def [symmetric] l1)
  have ka: "keep_alive c1" using assms(1) by (simp add: c1_def)
  show ?thesis
    using assms(4) ka
    by (simp add: do_write_def Let_def l0 total_def [symmetric] MAX_WRITE_ATTEMPTS_def)
qed

section \<open>A run that reaches the write\<close>

lemma health_callbacks:
  "fst (run_callbacks (ps_events health_parse) health_request conn) = HPE_OK"
  "snd (http_parser_execute health_parse conn health_request)
     = conn\<lparr>url := ''/health'', keep_alive := True,
            parser := \<lparr>http_errno = HPE_OK, http_major = 1, http_minor = 1,
                        upgrade = False, http_method = HTTP_GET\<rparr>\<rparr>"
  by (simp_all add: http_parser_execute_def health_parse_def health_request_def
      on_url_callback_def on_headers_complete_callback_def validate_url_def URL_MAX_LEN_def
      is_valid_url_char_def isalnum_def c_str_def CRLF_def CR_def LF_def NUL_def)

lemma length_health_request: "length health_request = 43"
  by (simp add: health_request_def CRLF_def)

lemma w_accepted_facts:
  "state (conns w_accepted 16383) = STATE_READING" "fd (conns w_accepted 16383) = 5"
  "bytes_read (conns w_accepted 16383) = 0" "read_buf (conns w_accepted 16383) = []"
  "epoll_reg w_accepted 5 = Some \<lparr>events = [EPOLLIN, EPOLLET, EPOLLONESHOT], data_ptr = 16383\<rparr>"
  "worker_inv w_accepted"
proof -
  have a: "(5::int) \<noteq> -1" by simp
  note f = accept_in_worker [OF worker_inv_w_start a w_start_stack]
  show "state (conns w_accepted 16383) = STATE_READING" "fd (conns w_accepted 16383) = 5"
    "bytes_read (conns w_accepted 16383) = 0" "read_buf (conns w_accepted 16383) = []"
    "epoll_reg w_accepted 5 = Some \<lparr>events = [EPOLLIN, EPOLLET, EPOLLONESHOT], data_ptr = 16383\<rparr>"
    "worker_inv w_accepted"
    unfolding w_accepted_def using f by simp_all
qed

lemma handle_new_connection_loop_clock: "clock (handle_new_connection_loop n as w) = clock w"
proof (induction as arbitrary: n w)
  case Nil
  then show ?case by simp
next
  case (Cons a as)
  show ?case
  proof (cases a)
    case Accept_eagain
    then show ?thesis by simp
  next
    case Accept_error
    then show ?thesis by simp
  next
    case (Accept_fd client_fd epoll_ok)
    define w0 where "w0 = w\<lparr>open_fds := insert client_fd (open_fds w)\<rparr>"
    show ?thesis
    proof (cases "free_connections_stack w0")
      case Nil
      then have g: "connection_get w0 = (None, w0)" by (simp add: connection_get_def)
      have "clock (close_fd w0 client_fd) = clock w" by (simp add: w0_def close_fd_def)
      then show ?thesis
        by (simp add: Accept_fd w0_def [symmetric] g Let_def Cons.IH)
    next
      case (Cons ci rest)
      define w1 where "w1 = snd (connection_get w0)"
      have g: "connection_get w0 = (Some ci, w1)" by (simp add: w1_def connection_get_def Cons)
      have c1: "clock w1 = clock w" using Cons by (simp add: w1_def connection_get_def w0_def)
      define w2 where
        "w2 = upd_conn w1 ci (\<lambda>c. c\<lparr>fd := client_fd, state := STATE_READING, last_active := clock w1\<rparr>)"
      have c2: "clock w2 = clock w" by (simp add: w2_def c1)
      have a: "clock (close_fd (connection_release w2 ci) client_fd) = clock w"
        by (simp add: connection_release_def Let_def c2 close_fd_def)
      have b: "clock (snd (timer_heap_add
                 (epoll_ctl_add w2 client_fd
                    \<lparr>events = [EPOLLIN, EPOLLET, EPOLLONESHOT], data_ptr = ci\<rparr>)
                 ci REQUEST_TIMEOUT_MS)) = clock w"
        by (simp add: c2)
      show ?thesis
        using a b
        by (simp add: Accept_fd w0_def [symmetric] g Let_def w2_def [symmetric] Cons.IH)
    qed
  qed
qed

end
